theory Spec2Isabelle
  imports Complex_Main "HOL-Library.Word" "HOL-Library.Sublist"
begin

unbundle bit_operations_syntax

chapter \<open>The write path of the xlsx package: \<^verbatim>\<open>file.go\<close>\<close>

section \<open>Machine numbers\<close>

text \<open>
  Go's \<^verbatim>\<open>int\<close> on a 64-bit target: addition wraps, comparisons are signed
  (\<open>sint\<close> reads the value).
\<close>

type_synonym go_int = "64 word"

text \<open>
  A \<^verbatim>\<open>float64\<close>: a finite value, one of the two infinities, or not-a-number.
  Division by zero does not trap in Go; it yields an infinity or NaN, and every
  comparison with NaN is false. The sign of zero is not tracked (a zero divisor
  counts as \<open>+0\<close>; the only divisors of the source that can be zero are converted
  integers, which are \<open>+0\<close>).
\<close>

datatype f64 = Fin real | PInf | NInf | NaN

section \<open>The data model\<close>

text \<open>
  \<^verbatim>\<open>Drawing\<close>, \<^verbatim>\<open>Col\<close> and \<^verbatim>\<open>Sheet\<close> are declared outside
  \<^verbatim>\<open>file.go\<close>; the records carry the fields that \<^verbatim>\<open>file.go\<close> reads and
  writes. Values of collaborating components that \<^verbatim>\<open>file.go\<close> only passes on
  (rows, the style sheet, the theme, the shared-string table) have the opaque type \<open>'o\<close>.
  The fields \<^verbatim>\<open>Min\<close>, \<^verbatim>\<open>Max\<close> and \<^verbatim>\<open>Width\<close> of a column carry the
  prefix \<open>Col_\<close>.
\<close>

record cell_position =
  ColNum :: go_int
  RowNum :: go_int

record drawing =
  ImageType :: nat
  ImageData :: string
  TopLeftCell :: cell_position
  ColCount :: go_int
  RowCount :: go_int
  Width :: go_int
  Height :: go_int

record col =
  Col_Min :: go_int
  Col_Max :: go_int
  Col_Width :: f64

text \<open>
  A sheet. Its back pointer \<^verbatim>\<open>File\<close> is not represented: \<^verbatim>\<open>file.go\<close> sets it
  and never reads it.
\<close>

record 'o sheet =
  Name :: string
  Selected :: bool
  MaxCol :: go_int
  Cols :: "col list"
  Drawings :: "drawing list"
  Rows :: "'o list"

text \<open>
  The file. \<^verbatim>\<open>Sheets\<close> and \<^verbatim>\<open>Sheet\<close> hold pointers to the same sheets in
  Go; here both hold the sheet's value.
\<close>

record 'o xlsx_file =
  worksheets :: "string \<rightharpoonup> 'o"
  referenceTable :: "'o option"
  Date1904 :: bool
  styles :: "'o option"
  Sheets :: "'o sheet list"
  Sheet :: "string \<rightharpoonup> 'o sheet"
  theme :: "'o option"
  DefinedNames :: "'o list"
  File_Drawings :: "drawing list list"

text \<open>A Go \<^verbatim>\<open>error\<close> value, with its message.\<close>

datatype go_error = Error string

section \<open>\<^verbatim>\<open>NewFile\<close> and \<^verbatim>\<open>AddSheet\<close>\<close>

definition NewFile :: "'o xlsx_file" where
  "NewFile =
     \<lparr> worksheets = Map.empty, referenceTable = None, Date1904 = False, styles = None,
       Sheets = [], Sheet = Map.empty, theme = None, DefinedNames = [],
       File_Drawings = [] \<rparr>"

text \<open>\<^verbatim>\<open>fmt.Errorf("duplicate sheet name '%s'.", sheetName)\<close>\<close>

definition duplicate_sheet_name :: "string \<Rightarrow> go_error" where
  "duplicate_sheet_name sheetName =
     Error (''duplicate sheet name '' @ [CHR 0x27] @ sheetName @ [CHR 0x27] @ ''.'')"

text \<open>
  \<^verbatim>\<open>AddSheet\<close> changes the file in place and returns the sheet or an error; the
  model returns the file after the call together with that result.
\<close>

definition AddSheet :: "'o xlsx_file \<Rightarrow> string \<Rightarrow> 'o xlsx_file \<times> (go_error + 'o sheet)" where
  "AddSheet f sheetName =
     (case Sheet f sheetName of
        Some _ \<Rightarrow> (f, Inl (duplicate_sheet_name sheetName))
      | None \<Rightarrow>
          (let sheet = \<lparr> Name = sheetName, Selected = (length (Sheets f) = 0), MaxCol = 0,
                          Cols = [], Drawings = [], Rows = [] \<rparr>
           in (f\<lparr> Sheet := (Sheet f)(sheetName \<mapsto> sheet), Sheets := Sheets f @ [sheet] \<rparr>,
               Inr sheet)))"

text \<open>A file built by successive \<^verbatim>\<open>AddSheet\<close> calls, whatever each call returns.\<close>

definition AddSheets :: "'o xlsx_file \<Rightarrow> string list \<Rightarrow> 'o xlsx_file" where
  "AddSheets f names = foldl (\<lambda>g n. fst (AddSheet g n)) f names"


section \<open>The compatibility rewrites\<close>

text \<open>
  \<^verbatim>\<open>strings.Replace(s, old, new, n)\<close>: the first \<open>n\<close> non-overlapping occurrences
  of \<open>old\<close>, found from the left, are replaced by \<open>new\<close>; all of them when
  \<open>n < 0\<close>. An empty \<open>old\<close>, which Go matches between characters, is never passed
  by \<^verbatim>\<open>file.go\<close> and is left alone here.
\<close>

function Replace :: "string \<Rightarrow> string \<Rightarrow> string \<Rightarrow> int \<Rightarrow> string" where
  "Replace s old new n =
     (if old = new \<or> n = 0 \<or> old = [] \<or> s = [] then s
      else if prefix old s then new @ Replace (drop (length old) s) old new (n - 1)
      else hd s # Replace (tl s) old new n)"
  by pat_completeness auto
termination
  by (relation "measure (\<lambda>(s, old, new, n). length s)") auto

declare Replace.simps [simp del]

text \<open>The string literals of \<^verbatim>\<open>replaceRelationshipsNameSpace\<close>.\<close>

definition relationships_attr :: string where
  \<open>relationships_attr = ''xmlns:relationships="http://schemas.openxmlformats.org/officeDocument/2006/relationships" relationships:id''\<close>

definition workbook_oldXmlns :: string where
  \<open>workbook_oldXmlns = ''<workbook xmlns="http://schemas.openxmlformats.org/spreadsheetml/2006/main">''\<close>

definition workbook_newXmlns :: string where
  \<open>workbook_newXmlns = ''<workbook xmlns="http://schemas.openxmlformats.org/spreadsheetml/2006/main" xmlns:r="http://schemas.openxmlformats.org/officeDocument/2006/relationships">''\<close>

definition replaceRelationshipsNameSpace :: "string \<Rightarrow> string" where
  "replaceRelationshipsNameSpace workbookMarshal =
     (let newWorkbook = Replace workbookMarshal relationships_attr ''r:id'' (- 1)
      in Replace newWorkbook workbook_oldXmlns workbook_newXmlns 1)"

text \<open>The string literals of \<^verbatim>\<open>replaceWorksheetNameSpace\<close>.\<close>

definition worksheet_oldXmlns :: string where
  \<open>worksheet_oldXmlns = ''<worksheet xmlns="http://schemas.openxmlformats.org/spreadsheetml/2006/main">''\<close>

definition worksheet_newXmlns :: string where
  \<open>worksheet_newXmlns = ''<worksheet xmlns="http://schemas.openxmlformats.org/spreadsheetml/2006/main" xmlns:mc="http://schemas.openxmlformats.org/markup-compatibility/2006" xmlns:r="http://schemas.openxmlformats.org/officeDocument/2006/relationships">''\<close>

definition replaceWorksheetNameSpace :: "string \<Rightarrow> string" where
  "replaceWorksheetNameSpace worksheetMarshal =
     Replace worksheetMarshal worksheet_oldXmlns worksheet_newXmlns 1"

text \<open>
  The number of positions of \<open>s\<close> at which \<open>old\<close> starts. A serialized document has
  one root element, and \<^verbatim>\<open>xml.Marshal\<close> escapes \<^verbatim>\<open><\<close> in text and attribute
  values, so the start tag of the root occurs in it once at most.
\<close>

fun occurrences :: "string \<Rightarrow> string \<Rightarrow> nat" where
  "occurrences old [] = 0"
| "occurrences old (c # cs) = (if prefix old (c # cs) then 1 else 0) + occurrences old cs"

section \<open>Floating-point arithmetic\<close>

text \<open>
  Every operation on finite values rounds its exact result; the rounding is the parameter
  \<open>r\<close>. Overflow of a finite result to an infinity is not modelled. The rules for
  infinities and NaN are those of IEEE 754.
\<close>

definition inf_of_sign :: "real \<Rightarrow> f64" where
  "inf_of_sign s = (if s = 0 then NaN else if 0 < s then PInf else NInf)"

fun f64_sign :: "f64 \<Rightarrow> real" where
  "f64_sign (Fin a) = sgn a"
| "f64_sign PInf = 1"
| "f64_sign NInf = - 1"
| "f64_sign NaN = 0"

fun fmul :: "(real \<Rightarrow> real) \<Rightarrow> f64 \<Rightarrow> f64 \<Rightarrow> f64" where
  "fmul r NaN y = NaN"
| "fmul r x NaN = NaN"
| "fmul r (Fin a) (Fin b) = Fin (r (a * b))"
| "fmul r x y = inf_of_sign (f64_sign x * f64_sign y)"

fun fdiv :: "(real \<Rightarrow> real) \<Rightarrow> f64 \<Rightarrow> f64 \<Rightarrow> f64" where
  "fdiv r NaN y = NaN"
| "fdiv r x NaN = NaN"
| "fdiv r (Fin a) (Fin b) = (if b = 0 then inf_of_sign (sgn a) else Fin (r (a / b)))"
| "fdiv r (Fin a) y = Fin 0"
| "fdiv r x (Fin b) = inf_of_sign (f64_sign x * (if 0 \<le> b then 1 else - 1))"
| "fdiv r x y = NaN"

fun fadd :: "(real \<Rightarrow> real) \<Rightarrow> f64 \<Rightarrow> f64 \<Rightarrow> f64" where
  "fadd r NaN y = NaN"
| "fadd r x NaN = NaN"
| "fadd r (Fin a) (Fin b) = Fin (r (a + b))"
| "fadd r PInf NInf = NaN"
| "fadd r NInf PInf = NaN"
| "fadd r (Fin a) y = y"
| "fadd r x y = x"

fun fneg :: "f64 \<Rightarrow> f64" where
  "fneg (Fin a) = Fin (- a)"
| "fneg PInf = NInf"
| "fneg NInf = PInf"
| "fneg NaN = NaN"

fun fsub :: "(real \<Rightarrow> real) \<Rightarrow> f64 \<Rightarrow> f64 \<Rightarrow> f64" where
  "fsub r (Fin a) (Fin b) = Fin (r (a - b))"
| "fsub r x y = fadd r x (fneg y)"

text \<open>\<open>x >= y\<close>: false as soon as one side is NaN.\<close>

fun fge :: "f64 \<Rightarrow> f64 \<Rightarrow> bool" where
  "fge NaN y = False"
| "fge x NaN = False"
| "fge (Fin a) (Fin b) = (b \<le> a)"
| "fge PInf y = True"
| "fge x NInf = True"
| "fge x y = False"

definition fle :: "f64 \<Rightarrow> f64 \<Rightarrow> bool" where
  "fle x y = fge y x"

text \<open>\<^verbatim>\<open>float64(i)\<close> for an \<^verbatim>\<open>int\<close>.\<close>

definition f64_of_int :: "(real \<Rightarrow> real) \<Rightarrow> go_int \<Rightarrow> f64" where
  "f64_of_int r i = Fin (r (signed i))"

text \<open>
  \<^verbatim>\<open>int(x)\<close> for a \<^verbatim>\<open>float64\<close>: the fraction is discarded (truncation towards
  zero). Where the value does not fit an \<^verbatim>\<open>int\<close> the result depends on the
  implementation: it is the parameter \<open>other\<close>.
\<close>

definition trunc_zero :: "real \<Rightarrow> int" where
  "trunc_zero a = (if 0 \<le> a then \<lfloor>a\<rfloor> else \<lceil>a\<rceil>)"

definition int_of_f64 :: "(f64 \<Rightarrow> go_int) \<Rightarrow> f64 \<Rightarrow> go_int" where
  "int_of_f64 other x =
     (case x of
        Fin a \<Rightarrow>
          if - (2 ^ 63) \<le> trunc_zero a \<and> trunc_zero a < 2 ^ 63 then word_of_int (trunc_zero a)
          else other x
      | _ \<Rightarrow> other x)"

section \<open>The parts of the package\<close>

text \<open>
  Modelled from the spec: the drawing part, \<^verbatim>\<open>newXlsxDrawing\<close> and
  \<^verbatim>\<open>AddDrawingTwoCellAnchor\<close> are declared outside \<^verbatim>\<open>file.go\<close>. The drawing part
  is the list of its two-cell anchors, each holding the nine arguments of the call in their
  order.
\<close>

record two_cell_anchor =
  FromCol :: go_int
  FromColOff :: go_int
  FromRow :: go_int
  FromRowOff :: go_int
  ToCol :: go_int
  ToColOff :: go_int
  ToRow :: go_int
  ToRowOff :: go_int
  EmbedId :: string

type_synonym xlsxDrawing = "two_cell_anchor list"

definition newXlsxDrawing :: xlsxDrawing where
  "newXlsxDrawing = []"

definition AddDrawingTwoCellAnchor ::
  "xlsxDrawing \<Rightarrow> go_int \<Rightarrow> go_int \<Rightarrow> go_int \<Rightarrow> go_int \<Rightarrow> go_int \<Rightarrow> go_int \<Rightarrow> go_int \<Rightarrow> go_int
     \<Rightarrow> string \<Rightarrow> xlsxDrawing" where
  "AddDrawingTwoCellAnchor xDrawing fromCol fromColOff fromRow fromRowOff
       toCol toColOff toRow toRowOff embedId =
     xDrawing @ [\<lparr> FromCol = fromCol, FromColOff = fromColOff, FromRow = fromRow,
                    FromRowOff = fromRowOff, ToCol = toCol, ToColOff = toColOff,
                    ToRow = toRow, ToRowOff = toRowOff, EmbedId = embedId \<rparr>]"

text \<open>\<^verbatim>\<open>%d\<close> of a counter that starts at 0 or 1 and only grows.\<close>

definition digit :: "nat \<Rightarrow> char" where
  "digit d = ''0123456789'' ! d"

function itoa :: "nat \<Rightarrow> string" where
  "itoa n = (if n < 10 then [digit n] else itoa (n div 10) @ [digit (n mod 10)])"
  by pat_completeness auto
termination
  by (relation "measure id") auto

declare itoa.simps [simp del]

text \<open>
  Modelled from the spec: the relationship set of a drawing part,
  \<^verbatim>\<open>newXlsxDrawingRelationships\<close> and \<^verbatim>\<open>AddDrawingRelationship\<close> are declared
  outside \<^verbatim>\<open>file.go\<close>. By the spec a relationship set maps synthetic identifiers,
  ordinal-tagged tokens unique within their owner, to targets: the set is the list of its
  entries (identifier, target) and the identifier of a new entry is \<^verbatim>\<open>rId\<close> followed
  by the entry's position, counted from 1.
\<close>

type_synonym xlsxRelationships = "(string \<times> string) list"

definition newXlsxDrawingRelationships :: xlsxRelationships where
  "newXlsxDrawingRelationships = []"

definition AddDrawingRelationship :: "xlsxRelationships \<Rightarrow> string \<Rightarrow> xlsxRelationships \<times> string" where
  "AddDrawingRelationship rels target =
     (let rId = ''rId'' @ itoa (length rels + 1) in (rels @ [(rId, target)], rId))"

definition newXlsxWorksheetRelationships :: xlsxRelationships where
  "newXlsxWorksheetRelationships = []"

definition AddWorksheetDrawingRelationship :: "xlsxRelationships \<Rightarrow> string \<Rightarrow> xlsxRelationships" where
  "AddWorksheetDrawingRelationship rels target =
     rels @ [(''rId'' @ itoa (length rels + 1), target)]"

text \<open>
  The content types. Of \<^verbatim>\<open>xlsxTypes\<close>, declared outside \<^verbatim>\<open>file.go\<close>,
  \<^verbatim>\<open>file.go\<close> touches the overrides only; the other fields are opaque.
\<close>

record xlsxOverride =
  PartName :: string
  ContentType :: string

record 'o xlsxTypes =
  Overrides :: "xlsxOverride list"
  Types_rest :: 'o

text \<open>The workbook part, with the fields that \<^verbatim>\<open>makeWorkbook\<close> fills.\<close>

record xlsxSheet =
  xlsxSheet_Name :: string
  xlsxSheet_SheetId :: string
  xlsxSheet_Id :: string
  xlsxSheet_State :: string

record xlsxWorkBookView =
  ShowHorizontalScroll :: bool
  ShowSheetTabs :: bool
  ShowVerticalScroll :: bool
  TabRatio :: int
  WindowHeight :: int
  WindowWidth :: int
  XWindow :: string
  YWindow :: string

record xlsxCalcPr =
  IterateCount :: int
  RefMode :: string
  Iterate :: bool
  IterateDelta :: f64

record xlsxWorkbook =
  FileVersion_AppName :: string
  WorkbookPr_ShowObjects :: string
  BookViews_WorkBookView :: "xlsxWorkBookView list"
  Sheets_Sheet :: "xlsxSheet list"
  CalcPr :: xlsxCalcPr

text \<open>The shared-string table: \<^verbatim>\<open>file.go\<close> sets its flag and passes it on.\<close>

record 'o RefTable =
  isWrite :: bool
  RefTable_rest :: 'o

text \<open>What \<^verbatim>\<open>marshal\<close> is called with.\<close>

datatype 'o thing =
    Worksheet 'o
  | Drawing xlsxDrawing
  | DrawingRelationships xlsxRelationships
  | WorksheetRelationships xlsxRelationships
  | Workbook xlsxWorkbook
  | SST 'o
  | WorkbookRels 'o
  | Types "'o xlsxTypes"

section \<open>What \<^verbatim>\<open>file.go\<close> takes from the rest of the package\<close>

text \<open>
  The constants, and the functions of collaborating components, that \<^verbatim>\<open>file.go\<close>
  uses and that are declared outside it. They are parameters of the model.
  \<open>rnd\<close> rounds an exact real to the nearest \<^verbatim>\<open>float64\<close>; \<open>int_overflow\<close> is the
  implementation's result of converting a \<^verbatim>\<open>float64\<close> that does not fit an
  \<^verbatim>\<open>int\<close>; \<open>xml_Marshal\<close> is \<^verbatim>\<open>xml.Marshal\<close>.
\<close>

record 'o env =
  rnd :: "real \<Rightarrow> real"
  int_overflow :: "f64 \<Rightarrow> go_int"
  PixelPerUnitHeight :: f64
  UnitHeightPerCell :: f64
  PixelPerUnitWidth :: f64
  NumberPerUnitWidth :: f64
  NumberPerUnitHeight :: f64
  IMAGE_TYPE_JPG :: nat
  IMAGE_TYPE_GIF :: nat
  IMAGE_TYPE_PNG :: nat
  IMAGE_EXT_JPG :: string
  IMAGE_EXT_GIF :: string
  IMAGE_EXT_PNG :: string
  TEMPLATE__RELS_DOT_RELS :: string
  TEMPLATE_DOCPROPS_APP :: string
  TEMPLATE_DOCPROPS_CORE :: string
  TEMPLATE_XL_THEME_THEME :: string
  xml_Marshal :: "'o thing \<Rightarrow> go_error + string"
  NewSharedStringRefTable :: "'o RefTable"
  makeXLSXSST :: "'o RefTable \<Rightarrow> 'o"
  newXlsxStyleSheet :: "'o option \<Rightarrow> 'o"
  styles_reset :: "'o \<Rightarrow> 'o"
  styles_Marshal :: "'o \<Rightarrow> go_error + string"
  makeXLSXSheet :: "'o sheet \<Rightarrow> 'o RefTable \<Rightarrow> 'o \<Rightarrow> 'o \<times> 'o RefTable \<times> 'o"
  MakeDefaultContentTypes :: "'o xlsxTypes"
  MakeXLSXWorkbookRels :: "(string \<rightharpoonup> string) \<Rightarrow> 'o"


section \<open>Column widths\<close>

text \<open>A run-time panic of Go.\<close>

datatype panic = IndexOutOfRange | LenOutOfRange

text \<open>Whether \<^verbatim>\<open>xs[i]\<close> is within the slice; Go panics where it is not.\<close>

definition in_range :: "'a list \<Rightarrow> go_int \<Rightarrow> bool" where
  "in_range xs i \<longleftrightarrow> 0 \<le> sint i \<and> nat (sint i) < length xs"

lemma sint_succ_below:
  fixes i m :: go_int
  assumes "i <s m"
  shows "sint (i + 1) = sint i + 1"
proof -
  have "sint i < sint m" using assms by (simp add: word_sless_alt)
  moreover have "sint m < 2 ^ 63" using sint_lt [of m] by simp
  moreover have "- (2 ^ 63) \<le> sint i" using sint_ge [of i] by simp
  ultimately show ?thesis
    by (simp add: sint_word_ariths signed_take_bit_int_eq_self)
qed

text \<open>
  The inner loop of lines 251 to 253:
  \<^verbatim>\<open>for i := col.Min - 1; i < col.Max; i++ { colWidths[i] = col.Width }\<close>
\<close>

function setWidths :: "f64 list \<Rightarrow> go_int \<Rightarrow> go_int \<Rightarrow> f64 \<Rightarrow> panic + f64 list" where
  "setWidths colWidths i mx w =
     (if i <s mx then
        (if in_range colWidths i then setWidths (colWidths[nat (sint i) := w]) (i + 1) mx w
         else Inl IndexOutOfRange)
      else Inr colWidths)"
  by pat_completeness auto
termination
  by (relation "measure (\<lambda>(colWidths, i, mx, w). nat (sint mx - sint i))")
     (auto simp: sint_succ_below word_sless_alt)

declare setWidths.simps [simp del]

text \<open>
  Lines 249 to 254: \<^verbatim>\<open>make([]float64, sheet.MaxCol)\<close>, which panics on a negative
  length, then the loop over \<^verbatim>\<open>sheet.Cols\<close>.
\<close>

fun fillCols :: "f64 list \<Rightarrow> col list \<Rightarrow> panic + f64 list" where
  "fillCols colWidths [] = Inr colWidths"
| "fillCols colWidths (c # cs) =
     (case setWidths colWidths (Col_Min c - 1) (Col_Max c) (Col_Width c) of
        Inl p \<Rightarrow> Inl p
      | Inr colWidths' \<Rightarrow> fillCols colWidths' cs)"

definition make_colWidths :: "'o sheet \<Rightarrow> panic + f64 list" where
  "make_colWidths sheet =
     (if sint (MaxCol sheet) < 0 then Inl LenOutOfRange
      else fillCols (replicate (nat (sint (MaxCol sheet))) (Fin 0)) (Cols sheet))"

section \<open>The placement of a drawing\<close>

text \<open>
  Lines 279 to 283, the walk over the columns when only the row span is given:
  \<^verbatim>\<open>for targeWidth >= colWidths[colIndex]*NumberPerUnitWidth { ... colIndex++ }\<close>.
  The result is \<open>None\<close> where the loop does not end.
\<close>

partial_function (option) colWalk ::
  "'o env \<Rightarrow> f64 list \<Rightarrow> f64 \<Rightarrow> go_int \<Rightarrow> (panic + go_int \<times> f64) option" where
  "colWalk env colWidths targeWidth colIndex =
     (if in_range colWidths colIndex then
        (if fge targeWidth
              (fmul (rnd env) (colWidths ! nat (sint colIndex)) (NumberPerUnitWidth env))
         then colWalk env colWidths
                (fsub (rnd env) targeWidth
                   (fmul (rnd env) (colWidths ! nat (sint colIndex)) (NumberPerUnitWidth env)))
                (colIndex + 1)
         else Some (Inr (colIndex, targeWidth)))
      else Some (Inl IndexOutOfRange))"

text \<open>
  Lines 289 to 291, the width of the spanned columns when the column span is given:
  \<^verbatim>\<open>for colIndex := ...; colIndex < toCol; colIndex++ { targetWidthInPixel += ... }\<close>
\<close>

function colSum :: "'o env \<Rightarrow> f64 list \<Rightarrow> go_int \<Rightarrow> go_int \<Rightarrow> f64 \<Rightarrow> panic + f64" where
  "colSum env colWidths colIndex toCol targetWidthInPixel =
     (if colIndex <s toCol then
        (if in_range colWidths colIndex then
           colSum env colWidths (colIndex + 1) toCol
             (fadd (rnd env) targetWidthInPixel
                (fmul (rnd env) (colWidths ! nat (sint colIndex)) (PixelPerUnitWidth env)))
         else Inl IndexOutOfRange)
      else Inr targetWidthInPixel)"
  by pat_completeness auto
termination
  by (relation "measure (\<lambda>(env, colWidths, colIndex, toCol, t). nat (sint toCol - sint colIndex))")
     (auto simp: sint_succ_below word_sless_alt)

declare colSum.simps [simp del]

text \<open>
  Lines 296 to 299, the walk over the rows:
  \<^verbatim>\<open>for targetHeight >= UnitHeightPerCell*NumberPerUnitHeight { ... rowIndex++ }\<close>.
  The result is \<open>None\<close> where the loop does not end.
\<close>

partial_function (option) rowWalk :: "'o env \<Rightarrow> f64 \<Rightarrow> go_int \<Rightarrow> (go_int \<times> f64) option" where
  "rowWalk env targetHeight rowIndex =
     (if fge targetHeight (fmul (rnd env) (UnitHeightPerCell env) (NumberPerUnitHeight env))
      then rowWalk env
             (fsub (rnd env) targetHeight
                (fmul (rnd env) (UnitHeightPerCell env) (NumberPerUnitHeight env)))
             (rowIndex + 1)
      else Some (rowIndex, targetHeight))"

text \<open>Lines 276 and 277: the target height and width, in pixels, from the row span.\<close>

definition targetHeightInPixel_of_rows :: "'o env \<Rightarrow> drawing \<Rightarrow> f64" where
  "targetHeightInPixel_of_rows env drawing =
     fmul (rnd env) (fmul (rnd env) (PixelPerUnitHeight env) (UnitHeightPerCell env))
       (f64_of_int (rnd env) (RowCount drawing))"

definition targetWidthInPixel_of_rows :: "'o env \<Rightarrow> drawing \<Rightarrow> f64" where
  "targetWidthInPixel_of_rows env drawing =
     fmul (rnd env)
       (fdiv (rnd env) (f64_of_int (rnd env) (Width drawing))
          (f64_of_int (rnd env) (Height drawing)))
       (targetHeightInPixel_of_rows env drawing)"

text \<open>
  Lines 270 to 303: the bottom-right cell and the offsets within it,
  \<open>(toCol, toColOff, toRow, toRowOff)\<close>. The two \<^verbatim>\<open>fmt.Println\<close> calls, which write
  to the standard output, are left out.
\<close>

definition resolveAnchor ::
  "'o env \<Rightarrow> f64 list \<Rightarrow> drawing \<Rightarrow> (panic + go_int \<times> go_int \<times> go_int \<times> go_int) option" where
  "resolveAnchor env colWidths drawing =
     (if 0 <s RowCount drawing \<and> 0 <s ColCount drawing then
        Some (Inr (ColNum (TopLeftCell drawing) + ColCount drawing, 0,
                   RowNum (TopLeftCell drawing) + RowCount drawing, 0))
      else if 0 <s RowCount drawing then
        (let toRow = RowNum (TopLeftCell drawing) + RowCount drawing;
             targetWidthInPixel = targetWidthInPixel_of_rows env drawing;
             targeWidth = fmul (rnd env)
                            (fdiv (rnd env) targetWidthInPixel (PixelPerUnitWidth env))
                            (NumberPerUnitWidth env)
         in case colWalk env colWidths targeWidth (ColNum (TopLeftCell drawing)) of
              None \<Rightarrow> None
            | Some (Inl p) \<Rightarrow> Some (Inl p)
            | Some (Inr (colIndex, targeWidth')) \<Rightarrow>
                Some (Inr (colIndex, int_of_f64 (int_overflow env) targeWidth', toRow, 0)))
      else
        (let toCol = ColNum (TopLeftCell drawing) + ColCount drawing
         in case colSum env colWidths (ColNum (TopLeftCell drawing)) toCol (Fin 0) of
              Inl p \<Rightarrow> Some (Inl p)
            | Inr targetWidthInPixel \<Rightarrow>
                (let targetHeightInPixel =
                       fmul (rnd env)
                         (fdiv (rnd env) (f64_of_int (rnd env) (Height drawing))
                            (f64_of_int (rnd env) (Width drawing)))
                         targetWidthInPixel;
                     targetHeight = fmul (rnd env)
                                      (fdiv (rnd env) targetHeightInPixel (PixelPerUnitHeight env))
                                      (NumberPerUnitHeight env)
                 in case rowWalk env targetHeight (RowNum (TopLeftCell drawing)) of
                      None \<Rightarrow> None
                    | Some (rowIndex, targetHeight') \<Rightarrow>
                        Some (Inr (toCol, 0, rowIndex,
                                   int_of_f64 (int_overflow env) targetHeight')))))"



section \<open>\<^verbatim>\<open>MarshallParts\<close>\<close>

text \<open>
  How a piece of \<^verbatim>\<open>MarshallParts\<close> ends other than by going on: with a panic, or
  with \<^verbatim>\<open>return parts, err\<close>. A piece that never ends has no result (\<open>None\<close>).
\<close>

datatype abort = Panic panic | Failed "string \<rightharpoonup> string" go_error

type_synonym 'a run = "(abort + 'a) option"

definition and_then :: "'a run \<Rightarrow> ('a \<Rightarrow> 'b run) \<Rightarrow> 'b run" where
  "and_then m k = (case m of None \<Rightarrow> None | Some (Inl a) \<Rightarrow> Some (Inl a) | Some (Inr v) \<Rightarrow> k v)"

definition of_panic :: "panic + 'a \<Rightarrow> 'a run" where
  "of_panic m = (case m of Inl p \<Rightarrow> Some (Inl (Panic p)) | Inr v \<Rightarrow> Some (Inr v))"

text \<open>\<^verbatim>\<open>xml.Header\<close> of the standard library.\<close>

definition xml_Header :: string where
  \<open>xml_Header = ''<?xml version="1.0" encoding="UTF-8"?>'' @ [CHR 0x0A]\<close>

text \<open>The closure \<^verbatim>\<open>marshal\<close>, lines 201 to 210.\<close>

definition marshal :: "'o env \<Rightarrow> 'o thing \<Rightarrow> go_error + string" where
  \<open>marshal env thing =
     (case xml_Marshal env thing of
        Inl err \<Rightarrow> Inl err
      | Inr body \<Rightarrow>
          (let outputStr = replaceWorksheetNameSpace body
           in Inr (Replace xml_Header ''<?xml version="1.0" encoding="UTF-8"?>''
                     ''<?xml version="1.0" encoding="UTF-8" standalone="yes"?>'' (- 1)
                   @ outputStr)))\<close>

text \<open>
  \<^verbatim>\<open>parts[name], err = marshal(thing); if err != nil { return parts, err }\<close>:
  on an error the assignment has stored the empty string.
\<close>

definition store :: "'o env \<Rightarrow> (string \<rightharpoonup> string) \<Rightarrow> string \<Rightarrow> 'o thing \<Rightarrow> (string \<rightharpoonup> string) run" where
  "store env m name thing =
     (case marshal env thing of
        Inl err \<Rightarrow> Some (Inl (Failed (m(name \<mapsto> [])) err))
      | Inr str \<Rightarrow> Some (Inr (m(name \<mapsto> str))))"

text \<open>\<^verbatim>\<open>makeWorkbook\<close>, lines 137 to 163.\<close>

definition makeWorkbook :: "'o env \<Rightarrow> 'o xlsx_file \<Rightarrow> xlsxWorkbook" where
  "makeWorkbook env f =
     \<lparr> FileVersion_AppName = ''Go XLSX'',
       WorkbookPr_ShowObjects = ''all'',
       BookViews_WorkBookView =
         [\<lparr> ShowHorizontalScroll = True, ShowSheetTabs = True, ShowVerticalScroll = True,
             TabRatio = 204, WindowHeight = 8192, WindowWidth = 16384,
             XWindow = ''0'', YWindow = ''0'' \<rparr>],
       Sheets_Sheet =
         replicate (length (Sheets f))
           \<lparr> xlsxSheet_Name = [], xlsxSheet_SheetId = [], xlsxSheet_Id = [],
             xlsxSheet_State = [] \<rparr>,
       CalcPr = \<lparr> IterateCount = 100, RefMode = ''A1'', Iterate = False,
                  IterateDelta = Fin (rnd env (1 / 1000)) \<rparr> \<rparr>"

text \<open>
  The state of a pass: the variables of \<^verbatim>\<open>MarshallParts\<close> that live across the
  loop over the sheets, and the style sheet \<^verbatim>\<open>f.styles\<close> points to. The counters
  only count up from 0 or 1 and are natural numbers.
\<close>

record 'o pass =
  parts :: "string \<rightharpoonup> string"
  refTable :: "'o RefTable"
  workbookRels :: "string \<rightharpoonup> string"
  workbook :: xlsxWorkbook
  types :: "'o xlsxTypes"
  sheetIndex :: nat
  drawingCount :: nat
  pass_styles :: 'o

text \<open>Lines 258 to 267: the name of the media part.\<close>

definition imageExt_of :: "'o env \<Rightarrow> drawing \<Rightarrow> string" where
  "imageExt_of env drawing =
     (if ImageType drawing = IMAGE_TYPE_JPG env then IMAGE_EXT_JPG env
      else if ImageType drawing = IMAGE_TYPE_GIF env then IMAGE_EXT_GIF env
      else if ImageType drawing = IMAGE_TYPE_PNG env then IMAGE_EXT_PNG env
      else [])"

definition imageName_of :: "'o env \<Rightarrow> nat \<Rightarrow> drawing \<Rightarrow> string" where
  "imageName_of env n drawing = ''image'' @ itoa n @ imageExt_of env drawing"

text \<open>
  Lines 257 to 305, the body of the loop over the drawings of a sheet. Its state is the
  state of the pass with the drawing part and the drawing's relationships of the sheet.
\<close>

definition drawingStep ::
  "'o env \<Rightarrow> f64 list \<Rightarrow> 'o pass \<times> xlsxDrawing \<times> xlsxRelationships \<Rightarrow> drawing
     \<Rightarrow> ('o pass \<times> xlsxDrawing \<times> xlsxRelationships) run" where
  "drawingStep env colWidths st drawing =
     (case st of (p, xDrawing, xDrawingRel) \<Rightarrow>
        (let drawingCount' = drawingCount p + 1;
             imageName = imageName_of env drawingCount' drawing;
             p' = p\<lparr> drawingCount := drawingCount',
                     parts := (parts p)(''xl/media/'' @ imageName \<mapsto> ImageData drawing) \<rparr>
         in and_then (case resolveAnchor env colWidths drawing of
                        None \<Rightarrow> None
                      | Some r \<Rightarrow> of_panic r)
              (\<lambda>(toCol, toColOff, toRow, toRowOff).
                 case AddDrawingRelationship xDrawingRel imageName of
                   (xDrawingRel', embedId) \<Rightarrow>
                     Some (Inr (p',
                       AddDrawingTwoCellAnchor xDrawing
                         (ColNum (TopLeftCell drawing)) 0 (RowNum (TopLeftCell drawing)) 0
                         toCol toColOff toRow toRowOff embedId,
                       xDrawingRel')))))"

fun drawingLoop ::
  "'o env \<Rightarrow> f64 list \<Rightarrow> 'o pass \<times> xlsxDrawing \<times> xlsxRelationships \<Rightarrow> drawing list
     \<Rightarrow> ('o pass \<times> xlsxDrawing \<times> xlsxRelationships) run" where
  "drawingLoop env colWidths st [] = Some (Inr st)"
| "drawingLoop env colWidths st (drawing # ds) =
     and_then (drawingStep env colWidths st drawing) (\<lambda>st'. drawingLoop env colWidths st' ds)"

text \<open>
  Lines 224 to 244: the worksheet part of a sheet, its content type, its relationship and
  its entry in the workbook.
\<close>

definition startSheet :: "'o env \<Rightarrow> 'o pass \<Rightarrow> 'o sheet \<Rightarrow> 'o pass run" where
  "startSheet env p sheet =
     (case makeXLSXSheet env sheet (refTable p) (pass_styles p) of
        (xSheet, refTable', styles') \<Rightarrow>
          (let rId = ''rId'' @ itoa (sheetIndex p);
               sheetId = itoa (sheetIndex p);
               sheetPath = ''worksheets/sheet'' @ itoa (sheetIndex p) @ ''.xml'';
               partName = ''xl/'' @ sheetPath;
               types' = (types p)\<lparr> Overrides := Overrides (types p) @
                 [\<lparr> PartName = ''/'' @ partName,
                     ContentType =
                       ''application/vnd.openxmlformats-officedocument.spreadsheetml.worksheet+xml'' \<rparr>] \<rparr>;
               workbookRels' = (workbookRels p)(rId \<mapsto> sheetPath)
           in if sheetIndex p = 0 \<or> length (Sheets_Sheet (workbook p)) \<le> sheetIndex p - 1
              then Some (Inl (Panic IndexOutOfRange))
              else
                (let workbook' = (workbook p)\<lparr> Sheets_Sheet := (Sheets_Sheet (workbook p))
                       [sheetIndex p - 1 :=
                          \<lparr> xlsxSheet_Name = Name sheet, xlsxSheet_SheetId = sheetId,
                            xlsxSheet_Id = rId, xlsxSheet_State = ''visible'' \<rparr>] \<rparr>
                 in and_then (store env (parts p) partName (Worksheet xSheet))
                      (\<lambda>parts'.
                         Some (Inr (p\<lparr> parts := parts', refTable := refTable',
                                         workbookRels := workbookRels', workbook := workbook',
                                         types := types', pass_styles := styles' \<rparr>))))))"

text \<open>
  Lines 308 to 330: the drawing part of a sheet, its content type, its relationships and
  the relationships of the worksheet.
\<close>

definition finishSheet ::
  "'o env \<Rightarrow> 'o pass \<times> xlsxDrawing \<times> xlsxRelationships \<Rightarrow> 'o pass run" where
  "finishSheet env st =
     (case st of (p, xDrawing, xDrawingRel) \<Rightarrow>
        (let drawingXML = ''drawing'' @ itoa (sheetIndex p) @ ''.xml'';
             drawingPartName = ''xl/drawings/'' @ drawingXML;
             types' = (types p)\<lparr> Overrides := Overrides (types p) @
               [\<lparr> PartName = ''/'' @ drawingPartName,
                   ContentType = ''application/vnd.openxmlformats-officedocument.drawing+xml'' \<rparr>] \<rparr>
         in and_then (store env (parts p) (''xl/drawings/_rels/'' @ drawingXML @ ''.rels'')
                        (DrawingRelationships xDrawingRel))
           (\<lambda>parts1.
            and_then (store env parts1 drawingPartName (Drawing xDrawing))
           (\<lambda>parts2.
            and_then (store env parts2
                        (''xl/worksheets/_rels/sheet'' @ itoa (sheetIndex p) @ ''.xml.rels'')
                        (WorksheetRelationships
                           (AddWorksheetDrawingRelationship newXlsxWorksheetRelationships
                              drawingXML)))
           (\<lambda>parts3.
            Some (Inr (p\<lparr> parts := parts3, types := types',
                            sheetIndex := sheetIndex p + 1 \<rparr>)))))))"

text \<open>Lines 224 to 330, the body of the loop over the sheets.\<close>

definition sheetStep :: "'o env \<Rightarrow> 'o pass \<Rightarrow> 'o sheet \<Rightarrow> 'o pass run" where
  "sheetStep env p sheet =
     and_then (startSheet env p sheet) (\<lambda>p'.
     and_then (of_panic (make_colWidths sheet)) (\<lambda>colWidths.
     and_then (drawingLoop env colWidths (p', newXlsxDrawing, newXlsxDrawingRelationships)
                 (Drawings sheet))
       (finishSheet env)))"

fun sheetLoop :: "'o env \<Rightarrow> 'o pass \<Rightarrow> 'o sheet list \<Rightarrow> 'o pass run" where
  "sheetLoop env p [] = Some (Inr p)"
| "sheetLoop env p (sheet # sheets) =
     and_then (sheetStep env p sheet) (\<lambda>p'. sheetLoop env p' sheets)"

text \<open>Lines 193 to 220: the state before the first sheet.\<close>

definition initial_pass :: "'o env \<Rightarrow> 'o xlsx_file \<Rightarrow> 'o pass" where
  "initial_pass env f =
     \<lparr> parts = Map.empty,
       refTable = (NewSharedStringRefTable env)\<lparr> isWrite := True \<rparr>,
       workbookRels = Map.empty,
       workbook = makeWorkbook env f,
       types = MakeDefaultContentTypes env,
       sheetIndex = 1,
       drawingCount = 0,
       pass_styles =
         styles_reset env
           (case styles f of None \<Rightarrow> newXlsxStyleSheet env (theme f) | Some s \<Rightarrow> s) \<rparr>"

text \<open>Lines 333 to 372: the parts of the workbook, after the last sheet.\<close>

definition finish_pass :: "'o env \<Rightarrow> 'o pass \<Rightarrow> (string \<rightharpoonup> string) run" where
  "finish_pass env p =
     (case marshal env (Workbook (workbook p)) of
        Inl err \<Rightarrow> Some (Inl (Failed (parts p) err))
      | Inr workbookMarshal \<Rightarrow>
     (let parts1 = (parts p)
            (''xl/workbook.xml'' \<mapsto> replaceRelationshipsNameSpace workbookMarshal,
             ''_rels/.rels'' \<mapsto> TEMPLATE__RELS_DOT_RELS env,
             ''docProps/app.xml'' \<mapsto> TEMPLATE_DOCPROPS_APP env,
             ''docProps/core.xml'' \<mapsto> TEMPLATE_DOCPROPS_CORE env,
             ''xl/theme/theme1.xml'' \<mapsto> TEMPLATE_XL_THEME_THEME env)
      in
      and_then (store env parts1 ''xl/sharedStrings.xml'' (SST (makeXLSXSST env (refTable p))))
        (\<lambda>parts2.
      and_then (store env parts2 ''xl/_rels/workbook.xml.rels''
                  (WorkbookRels (MakeXLSXWorkbookRels env (workbookRels p)))) (\<lambda>parts3.
      and_then (store env parts3 ''[Content_Types].xml'' (Types (types p))) (\<lambda>parts4.
      (case styles_Marshal env (pass_styles p) of
         Inl err \<Rightarrow> Some (Inl (Failed (parts4(''xl/styles.xml'' \<mapsto> [])) err))
       | Inr str \<Rightarrow> Some (Inr (parts4(''xl/styles.xml'' \<mapsto> str)))))))))"

text \<open>
  \<^verbatim>\<open>MarshallParts\<close>. A normal return gives the part map and the file, whose
  \<^verbatim>\<open>styles\<close> the pass has set and changed.
\<close>

definition MarshallParts :: "'o env \<Rightarrow> 'o xlsx_file \<Rightarrow> ('o xlsx_file \<times> (string \<rightharpoonup> string)) run" where
  "MarshallParts env f =
     and_then (sheetLoop env (initial_pass env f) (Sheets f)) (\<lambda>p.
     and_then (finish_pass env p) (\<lambda>parts'.
     Some (Inr (f\<lparr> styles := Some (pass_styles p) \<rparr>, parts'))))"

section \<open>\<^verbatim>\<open>Write\<close>\<close>





section \<open>The errors of a pass\<close>


section \<open>Sample inputs\<close>

text \<open>Small documents on which the properties below are exercised.\<close>

definition sample_workbook :: string where
  \<open>sample_workbook = ''<workbook xmlns="http://schemas.openxmlformats.org/spreadsheetml/2006/main"><sheet xmlns:relationships="http://schemas.openxmlformats.org/officeDocument/2006/relationships" relationships:id="rId1"></sheet></workbook>''\<close>

definition sample_worksheet :: string where
  \<open>sample_worksheet = ''<worksheet xmlns="http://schemas.openxmlformats.org/spreadsheetml/2006/main"></worksheet>''\<close>

text \<open>
  An instance of the parameters: exact arithmetic, positive units, and a serializer that
  prints what the properties below look at.
\<close>

definition sample_xml_Marshal :: "unit thing \<Rightarrow> go_error + string" where
  \<open>sample_xml_Marshal t =
     (case t of
        Worksheet _ \<Rightarrow> Inr sample_worksheet
      | Drawing anchors \<Rightarrow> Inr (''<wsDr>'' @ concat (map (\<lambda>a. ''<twoCellAnchor r:embed="'' @ EmbedId a @ ''"/>'') anchors) @ ''</wsDr>'')
      | DrawingRelationships rels \<Rightarrow> Inr (''<Relationships>'' @ concat (map (\<lambda>(i, t). ''<Relationship Id="'' @ i @ ''" Target="'' @ t @ ''"/>'') rels) @ ''</Relationships>'')
      | WorksheetRelationships rels \<Rightarrow> Inr (''<Relationships>'' @ concat (map (\<lambda>(i, t). ''<Relationship Id="'' @ i @ ''" Target="'' @ t @ ''"/>'') rels) @ ''</Relationships>'')
      | Workbook wb \<Rightarrow> Inr (workbook_oldXmlns @ concat (map (\<lambda>s. ''<sheet name="'' @ xlsxSheet_Name s @ ''"/>'') (Sheets_Sheet wb)) @ ''</workbook>'')
      | SST _ \<Rightarrow> Inr ''<sst/>''
      | WorkbookRels _ \<Rightarrow> Inr ''<Relationships/>''
      | Types ts \<Rightarrow> Inr (''<Types>'' @ concat (map (\<lambda>ov. ''<Override PartName="'' @ PartName ov @ ''"/>'') (Overrides ts)) @ ''</Types>''))\<close>

definition sample_env :: "unit env" where
  "sample_env =
     \<lparr> rnd = id,
       int_overflow = (\<lambda>_. 0),
       PixelPerUnitHeight = Fin 1,
       UnitHeightPerCell = Fin 20,
       PixelPerUnitWidth = Fin 8,
       NumberPerUnitWidth = Fin 64,
       NumberPerUnitHeight = Fin 16,
       IMAGE_TYPE_JPG = 1,
       IMAGE_TYPE_GIF = 2,
       IMAGE_TYPE_PNG = 3,
       IMAGE_EXT_JPG = ''.jpg'',
       IMAGE_EXT_GIF = ''.gif'',
       IMAGE_EXT_PNG = ''.png'',
       TEMPLATE__RELS_DOT_RELS = ''<Relationships/>'',
       TEMPLATE_DOCPROPS_APP = ''<Properties/>'',
       TEMPLATE_DOCPROPS_CORE = ''<coreProperties/>'',
       TEMPLATE_XL_THEME_THEME = ''<theme/>'',
       xml_Marshal = sample_xml_Marshal,
       NewSharedStringRefTable = \<lparr> isWrite = False, RefTable_rest = () \<rparr>,
       makeXLSXSST = (\<lambda>_. ()),
       newXlsxStyleSheet = (\<lambda>_. ()),
       styles_reset = (\<lambda>s. s),
       styles_Marshal = (\<lambda>_. Inr ''<styleSheet/>''),
       makeXLSXSheet = (\<lambda>sheet refTable styles. ((), refTable, styles)),
       MakeDefaultContentTypes =
         \<lparr> Overrides = [\<lparr> PartName = ''/xl/workbook.xml'', ContentType = ''application/vnd.openxmlformats-officedocument.spreadsheetml.sheet.main+xml'' \<rparr>],
           Types_rest = () \<rparr>,
       MakeXLSXWorkbookRels = (\<lambda>_. ()) \<rparr>"

text \<open>A file of one sheet, of two columns without width overrides, with one drawing.\<close>

definition sample_sheet :: "drawing \<Rightarrow> unit sheet" where
  "sample_sheet d =
     \<lparr> Name = ''Sheet1'', Selected = True, MaxCol = 2, Cols = [], Drawings = [d], Rows = [] \<rparr>"

definition sample_file :: "drawing \<Rightarrow> unit xlsx_file" where
  "sample_file d =
     NewFile \<lparr> Sheets := [sample_sheet d], Sheet := [''Sheet1'' \<mapsto> sample_sheet d] \<rparr>"

definition sample_drawing :: "go_int \<Rightarrow> go_int \<Rightarrow> go_int \<Rightarrow> go_int \<Rightarrow> drawing" where
  "sample_drawing colSpan rowSpan w h =
     \<lparr> ImageType = 3, ImageData = ''PNG'', TopLeftCell = \<lparr> ColNum = 0, RowNum = 0 \<rparr>,
       ColCount = colSpan, RowCount = rowSpan, Width = w, Height = h \<rparr>"




chapter \<open>Properties\<close>

section \<open>Sheet names\<close>





lemma AddSheet_fresh:
  assumes "Sheet f n = None"
  shows "\<exists>s. AddSheet f n
               = (f\<lparr> Sheet := (Sheet f)(n \<mapsto> s), Sheets := Sheets f @ [s] \<rparr>, Inr s)
             \<and> Name s = n"
proof -
  let ?s = "\<lparr> Name = n, Selected = (length (Sheets f) = 0), MaxCol = 0,
               Cols = [], Drawings = [], Rows = [] \<rparr>"
  have "AddSheet f n
          = (f\<lparr> Sheet := (Sheet f)(n \<mapsto> ?s), Sheets := Sheets f @ [?s] \<rparr>, Inr ?s)"
    using assms by (simp add: AddSheet_def Let_def)
  then show ?thesis
    by (intro exI [of _ ?s]) simp
qed







section \<open>The selected sheet\<close>

lemma AddSheet_Selected_new:
  "AddSheet f n = (f', Inr s) \<Longrightarrow> Selected s = (Sheets f = [])"
  by (auto simp: AddSheet_def Let_def split: option.splits)

lemma AddSheet_first_selected:
  assumes "\<forall>i < length (Sheets f). Selected (Sheets f ! i) \<longleftrightarrow> i = 0"
  shows "\<forall>i < length (Sheets (fst (AddSheet f n))).
           Selected (Sheets (fst (AddSheet f n)) ! i) \<longleftrightarrow> i = 0"
  using assms
  by (auto simp: AddSheet_def Let_def nth_append split: option.splits)

lemma AddSheets_first_selected:
  assumes "\<forall>i < length (Sheets f). Selected (Sheets f ! i) \<longleftrightarrow> i = 0"
  shows "\<forall>i < length (Sheets (AddSheets f ns)). Selected (Sheets (AddSheets f ns) ! i) \<longleftrightarrow> i = 0"
  using assms unfolding AddSheets_def
proof (induction ns arbitrary: f)
  case Nil
  then show ?case by simp
next
  case (Cons n ns)
  from AddSheet_first_selected [OF Cons.prems]
  have "\<forall>i < length (Sheets (fst (AddSheet f n))).
          Selected (Sheets (fst (AddSheet f n)) ! i) \<longleftrightarrow> i = 0" .
  from Cons.IH [OF this] show ?case by simp
qed

lemma AddSheet_keeps_sheets:
  "length (Sheets f) \<le> length (Sheets (fst (AddSheet f n)))"
  by (simp add: AddSheet_def Let_def split: option.splits)

lemma AddSheets_keeps_sheets:
  "length (Sheets f) \<le> length (Sheets (AddSheets f ns))"
  unfolding AddSheets_def
proof (induction ns arbitrary: f)
  case Nil
  show ?case by simp
next
  case (Cons n ns)
  have "length (Sheets f) \<le> length (Sheets (fst (AddSheet f n)))"
    by (rule AddSheet_keeps_sheets)
  also have "\<dots> \<le> length (Sheets (foldl (\<lambda>g n. fst (AddSheet g n)) (fst (AddSheet f n)) ns))"
    by (rule Cons.IH)
  finally show ?case by simp
qed

lemma AddSheets_NewFile_nonempty:
  assumes "ns \<noteq> []"
  shows "Sheets (AddSheets (NewFile :: 'o xlsx_file) ns) \<noteq> []"
proof -
  from assms obtain n ns' where ns: "ns = n # ns'"
    by (cases ns) auto
  let ?f = "fst (AddSheet (NewFile :: 'o xlsx_file) n)"
  have "length (Sheets ?f) = 1"
    by (simp add: AddSheet_def NewFile_def Let_def)
  moreover have "length (Sheets ?f) \<le> length (Sheets (AddSheets ?f ns'))"
    by (rule AddSheets_keeps_sheets)
  moreover have "AddSheets (NewFile :: 'o xlsx_file) ns = AddSheets ?f ns'"
    by (simp add: ns AddSheets_def)
  ultimately show ?thesis by auto
qed

lemma first_selected_filter:
  assumes "xs \<noteq> []" and "\<forall>i < length xs. Selected (xs ! i) \<longleftrightarrow> i = 0"
  shows "Selected (hd xs) \<and> filter Selected xs = [hd xs]"
proof -
  from assms(1) obtain x rest where xs: "xs = x # rest"
    by (cases xs) auto
  from assms(2) xs have x: "Selected x"
    by auto
  have "\<not> Selected y" if "y \<in> set rest" for y
  proof -
    from that obtain j where "j < length rest" "rest ! j = y"
      by (auto simp: in_set_conv_nth)
    with assms(2) xs show ?thesis
      by (auto dest: spec [of _ "Suc j"])
  qed
  then have "filter Selected rest = []"
    by (simp add: filter_empty_conv)
  with x xs show ?thesis by simp
qed

text \<open>
  Claim C10. \<^verbatim>\<open>AddSheet\<close> with a name the map does not have creates a sheet, and flags
  it as selected exactly when the file had no sheet before the call. So a file built from
  \<^verbatim>\<open>NewFile\<close> by one or more \<^verbatim>\<open>AddSheet\<close> calls has a sheet, its first sheet is
  selected, and exactly one of its sheets is: the one at position 0.
\<close>

theorem AddSheet_selects_first_sheet:
  fixes f :: "'o xlsx_file"
  shows "(AddSheet f n = (f', Inr s) \<longrightarrow> (Selected s \<longleftrightarrow> Sheets f = []))
   \<and> (Sheet f n = None \<longrightarrow>
        (\<exists>s. AddSheet f n
               = (f\<lparr> Sheet := (Sheet f)(n \<mapsto> s), Sheets := Sheets f @ [s] \<rparr>, Inr s)
             \<and> (Selected s \<longleftrightarrow> Sheets f = [])))
   \<and> (\<forall>i < length (Sheets (AddSheets (NewFile :: 'o xlsx_file) ns)).
         Selected (Sheets (AddSheets (NewFile :: 'o xlsx_file) ns) ! i) \<longleftrightarrow> i = 0)
   \<and> (ns \<noteq> [] \<longrightarrow>
         Sheets (AddSheets (NewFile :: 'o xlsx_file) ns) \<noteq> []
         \<and> Selected (hd (Sheets (AddSheets (NewFile :: 'o xlsx_file) ns)))
         \<and> filter Selected (Sheets (AddSheets (NewFile :: 'o xlsx_file) ns))
             = [hd (Sheets (AddSheets (NewFile :: 'o xlsx_file) ns))]
         \<and> length (filter Selected (Sheets (AddSheets (NewFile :: 'o xlsx_file) ns))) = 1)"
proof -
  let ?F = "AddSheets (NewFile :: 'o xlsx_file) ns"
  have new: "Selected s \<longleftrightarrow> Sheets f = []" if "AddSheet f n = (f', Inr s)"
    using that by (rule AddSheet_Selected_new)
  have fresh: "\<exists>s. AddSheet f n
                     = (f\<lparr> Sheet := (Sheet f)(n \<mapsto> s), Sheets := Sheets f @ [s] \<rparr>, Inr s)
                   \<and> (Selected s \<longleftrightarrow> Sheets f = [])" if "Sheet f n = None"
  proof -
    from that obtain s
      where s: "AddSheet f n
                  = (f\<lparr> Sheet := (Sheet f)(n \<mapsto> s), Sheets := Sheets f @ [s] \<rparr>, Inr s)"
      using AddSheet_fresh by blast
    then have "Selected s \<longleftrightarrow> Sheets f = []"
      by (rule AddSheet_Selected_new)
    with s show ?thesis by blast
  qed
  have "\<forall>i < length (Sheets (NewFile :: 'o xlsx_file)).
          Selected (Sheets (NewFile :: 'o xlsx_file) ! i) \<longleftrightarrow> i = 0"
    by (simp add: NewFile_def)
  then have only: "\<forall>i < length (Sheets ?F). Selected (Sheets ?F ! i) \<longleftrightarrow> i = 0"
    by (rule AddSheets_first_selected)
  have built: "Sheets ?F \<noteq> [] \<and> Selected (hd (Sheets ?F))
                 \<and> filter Selected (Sheets ?F) = [hd (Sheets ?F)]
                 \<and> length (filter Selected (Sheets ?F)) = 1" if "ns \<noteq> []"
  proof -
    from that have ne: "Sheets ?F \<noteq> []"
      by (rule AddSheets_NewFile_nonempty)
    from first_selected_filter [OF ne only] ne show ?thesis
      by simp
  qed
  from new fresh only built show ?thesis
    by blast
qed

theorem AddSheet_selects_first_sheet_witness:
  "map Selected (Sheets (AddSheets (NewFile :: unit xlsx_file)
                           [''Sheet1'', ''Data'', ''Sheet1'', ''Summary'']))
     = [True, False, False]
   \<and> map Name (filter Selected (Sheets (AddSheets (NewFile :: unit xlsx_file)
                                          [''Sheet1'', ''Data'', ''Sheet1'', ''Summary''])))
       = [''Sheet1'']
   \<and> (\<exists>f' s. AddSheet (NewFile :: unit xlsx_file) ''Sheet1'' = (f', Inr s) \<and> Selected s)
   \<and> (\<exists>f' s. AddSheet (AddSheets (NewFile :: unit xlsx_file) [''Sheet1'']) ''Data''
                = (f', Inr s)
         \<and> \<not> Selected s)"
proof -
  let ?ns = "[''Sheet1'', ''Data'', ''Sheet1'', ''Summary'']"
  let ?f = "AddSheets (NewFile :: unit xlsx_file) ?ns"
  note inst = AddSheet_selects_first_sheet [where ns = ?ns and 'o = unit]
  have names: "map Name (Sheets ?f) = [''Sheet1'', ''Data'', ''Summary'']"
    by (simp add: AddSheets_def AddSheet_def NewFile_def Let_def)
  then have len: "length (Sheets ?f) = 3"
    by (metis length_map length_Cons list.size(3) numeral_3_eq_3)
  have sel: "\<forall>i < length (Sheets ?f). Selected (Sheets ?f ! i) \<longleftrightarrow> i = 0"
    using inst by blast
  have flags: "map Selected (Sheets ?f) = [True, False, False]"
  proof (rule nth_equalityI)
    show "length (map Selected (Sheets ?f)) = length [True, False, False]"
      using len by simp
  next
    fix i assume "i < length (map Selected (Sheets ?f))"
    then have i: "i < length (Sheets ?f)" by simp
    then have "i = 0 \<or> i = 1 \<or> i = 2" using len by auto
    with sel i show "map Selected (Sheets ?f) ! i = [True, False, False] ! i"
      by (auto simp del: One_nat_def)
  qed
  have "filter Selected (Sheets ?f) = [hd (Sheets ?f)]" and ne: "Sheets ?f \<noteq> []"
    using inst by simp_all
  moreover have "Name (hd (Sheets ?f)) = ''Sheet1''"
    using names ne by (cases "Sheets ?f") simp_all
  ultimately have one: "map Name (filter Selected (Sheets ?f)) = [''Sheet1'']"
    by simp
  obtain f1 s1 where c1: "AddSheet (NewFile :: unit xlsx_file) ''Sheet1'' = (f1, Inr s1)"
    by (simp add: AddSheet_def NewFile_def Let_def)
  have em: "Sheets (NewFile :: unit xlsx_file) = []"
    by (simp add: NewFile_def)
  from AddSheet_selects_first_sheet [of NewFile "''Sheet1''" f1 s1 "[]"] c1 em
  have s1: "Selected s1" by blast
  obtain f2 s2
    where c2: "AddSheet (AddSheets (NewFile :: unit xlsx_file) [''Sheet1'']) ''Data''
                 = (f2, Inr s2)"
    by (simp add: AddSheets_def AddSheet_def NewFile_def Let_def)
  have ne2: "Sheets (AddSheets (NewFile :: unit xlsx_file) [''Sheet1'']) \<noteq> []"
    by (simp add: AddSheets_def AddSheet_def NewFile_def Let_def)
  from AddSheet_selects_first_sheet
         [of "AddSheets NewFile [''Sheet1'']" "''Data''" f2 s2 "[]"] c2 ne2
  have s2: "\<not> Selected s2" by blast
  from flags one c1 s1 c2 s2 show ?thesis by blast
qed

section \<open>The compatibility rewrites are idempotent\<close>


lemma Replace_match:
  "old \<noteq> [] \<Longrightarrow> old \<noteq> new \<Longrightarrow> n \<noteq> 0 \<Longrightarrow> prefix old s \<Longrightarrow>
   Replace s old new n = new @ Replace (drop (length old) s) old new (n - 1)"
  by (subst Replace.simps) auto

lemma Replace_zero: "Replace s old new 0 = s"
  by (subst Replace.simps) simp

lemma Replace_Nil: "Replace [] old new n = []"
  by (subst Replace.simps) simp

lemma Replace_same: "Replace s old old n = s"
  by (subst Replace.simps) simp

lemma Replace_old_Nil: "Replace s [] new n = s"
  by (subst Replace.simps) simp

lemma Replace_skip:
  assumes "\<not> prefix old (c # cs)"
  shows "Replace (c # cs) old new n = c # Replace cs old new n"
proof -
  have "Replace (c # cs) old new n =
          (if old = new \<or> n = 0 \<or> old = [] \<or> c # cs = [] then c # cs
           else if prefix old (c # cs)
             then new @ Replace (drop (length old) (c # cs)) old new (n - 1)
             else hd (c # cs) # Replace (tl (c # cs)) old new n)"
    by (rule Replace.simps)
  with assms show ?thesis
    by (auto simp: Replace_same Replace_zero Replace_old_Nil)
qed

lemma Replace_absent: "\<not> sublist old s \<Longrightarrow> Replace s old new n = s"
proof (induction s)
  case Nil
  show ?case by (rule Replace_Nil)
next
  case (Cons c cs)
  then have "\<not> prefix old (c # cs)" and "\<not> sublist old cs"
    by (auto simp: sublist_Cons_right)
  with Cons.IH show ?case by (simp add: Replace_skip)
qed

lemma occurrences_0_iff: "old \<noteq> [] \<Longrightarrow> occurrences old s = 0 \<longleftrightarrow> \<not> sublist old s"
  by (induction s) (auto simp: sublist_Cons_right)

lemma takeWhile_Replace:
  assumes "old = c # old'" "new = c # new'"
  shows "takeWhile (\<lambda>x. x \<noteq> c) (Replace s old new n) = takeWhile (\<lambda>x. x \<noteq> c) s"
proof (induction s)
  case Nil
  show ?case by (simp add: Replace_Nil)
next
  case (Cons a s)
  show ?case
  proof (cases "prefix old (a # s)")
    case True
    then have a: "a = c" using assms by simp
    have "Replace (a # s) old new n =
            (if old = new \<or> n = 0 \<or> old = [] \<or> a # s = [] then a # s
             else if prefix old (a # s)
               then new @ Replace (drop (length old) (a # s)) old new (n - 1)
               else hd (a # s) # Replace (tl (a # s)) old new n)"
      by (rule Replace.simps)
    with True
    have "Replace (a # s) old new n = a # s \<or> (\<exists>r. Replace (a # s) old new n = new @ r)"
      by (auto split: if_splits)
    then show ?thesis
      using assms a by auto
  next
    case False
    with Cons show ?thesis by (simp add: Replace_skip)
  qed
qed

lemma prefix_takeWhile_free:
  "prefix q r \<Longrightarrow> c \<notin> set q \<Longrightarrow> prefix q (takeWhile (\<lambda>x. x \<noteq> c) r)"
proof (induction q arbitrary: r)
  case Nil
  show ?case by simp
next
  case (Cons a q)
  from Cons.prems(1) obtain r' where r: "r = a # r'" and "prefix q r'"
    by (cases r) auto
  with Cons show ?case by auto
qed

lemma prefix_of_takeWhile:
  assumes "prefix q (takeWhile P s)"
  shows "prefix q s"
proof -
  from assms obtain r where "takeWhile P s = q @ r"
    by (auto simp: prefix_def)
  then have "s = q @ (r @ dropWhile P s)"
    using takeWhile_dropWhile_id [of P s] by simp
  then show ?thesis
    unfolding prefix_def by blast
qed

lemma sublist_of_drop:
  assumes "sublist old (drop m s)"
  shows "sublist old s"
proof -
  from assms obtain ps ss where "drop m s = ps @ old @ ss"
    by (auto simp: sublist_def)
  then have "s = (take m s @ ps) @ old @ ss"
    using append_take_drop_id [of m s] by simp
  then show ?thesis
    unfolding sublist_def by blast
qed

lemma prefix_Replace_back:
  assumes "old = c # old'" "new = c # new'" "c \<notin> set q" "prefix q (Replace s old new n)"
  shows "prefix q s"
proof -
  from assms(4,3) have "prefix q (takeWhile (\<lambda>x. x \<noteq> c) (Replace s old new n))"
    by (rule prefix_takeWhile_free)
  then have "prefix q (takeWhile (\<lambda>x. x \<noteq> c) s)"
    by (simp add: takeWhile_Replace [OF assms(1,2)])
  then show ?thesis by (rule prefix_of_takeWhile)
qed

lemma sublist_behind_tag:
  assumes old: "old = c # old'" "c \<notin> set old'"
    and new: "new = c # new'" "c \<notin> set new'"
    and diff: "\<not> prefix old new" "length old \<le> length new"
    and b: "\<not> sublist old b"
  shows "\<not> sublist old (new @ b)"
proof -
  have tail: "\<not> sublist old (xs @ b)" if "c \<notin> set xs" for xs
    using that
  proof (induction xs)
    case Nil
    show ?case using b by simp
  next
    case (Cons a xs)
    then have "\<not> prefix old ((a # xs) @ b)" using old by auto
    with Cons show ?case by (simp add: sublist_Cons_right)
  qed
  have "\<not> prefix old (new @ b)"
  proof
    assume "prefix old (new @ b)"
    then have "prefix old new"
      using diff(2) by (auto simp: prefix_append)
    with diff(1) show False by simp
  qed
  moreover have "\<not> sublist old (new' @ b)"
    using new(2) by (rule tail)
  ultimately show ?thesis
    using new(1) by (simp add: sublist_Cons_right)
qed

lemma Replace_first_twice:
  assumes old: "old = c # old'" "c \<notin> set old'"
    and new: "new = c # new'" "c \<notin> set new'"
    and diff: "\<not> prefix old new" "length old \<le> length new"
    and once: "occurrences old s \<le> 1"
  shows "Replace (Replace s old new 1) old new 1 = Replace s old new 1"
  using once
proof (induction s)
  case Nil
  show ?case by (simp add: Replace_Nil)
next
  case (Cons a s)
  have ne: "old \<noteq> []" "old \<noteq> new" using old diff by auto
  show ?case
  proof (cases "prefix old (a # s)")
    case True
    with Cons.prems have "occurrences old s = 0" by simp
    then have "\<not> sublist old s" using ne by (simp add: occurrences_0_iff)
    moreover have "drop (length old) (a # s) = drop (length old - 1) s"
      using ne by (cases old) auto
    ultimately have "\<not> sublist old (drop (length old) (a # s))"
      using sublist_of_drop [of old "length old - 1" s] by auto
    then have "\<not> sublist old (new @ drop (length old) (a # s))"
      by (rule sublist_behind_tag [OF old new diff])
    then have "Replace (new @ drop (length old) (a # s)) old new 1
                 = new @ drop (length old) (a # s)"
      by (rule Replace_absent)
    moreover have "Replace (a # s) old new 1 = new @ drop (length old) (a # s)"
      using ne True by (simp add: Replace_match Replace_zero)
    ultimately show ?thesis by simp
  next
    case False
    then have step: "Replace (a # s) old new 1 = a # Replace s old new 1"
      by (rule Replace_skip)
    have "\<not> prefix old (a # Replace s old new 1)"
    proof
      assume p: "prefix old (a # Replace s old new 1)"
      then have "a = c" and "prefix old' (Replace s old new 1)"
        using old by auto
      then have "prefix old' s"
        using prefix_Replace_back [OF old(1) new(1) old(2)] by blast
      with \<open>a = c\<close> old have "prefix old (a # s)" by simp
      with False show False by simp
    qed
    then have "Replace (a # Replace s old new 1) old new 1
                 = a # Replace (Replace s old new 1) old new 1"
      by (rule Replace_skip)
    moreover from Cons.prems have "occurrences old s \<le> 1"
      by (simp split: if_splits)
    ultimately show ?thesis using Cons.IH step by simp
  qed
qed


lemma sublist_behind_free:
  assumes "old = c # old'" "c \<notin> set xs" "\<not> sublist old b"
  shows "\<not> sublist old (xs @ b)"
  using assms(2)
proof (induction xs)
  case Nil
  show ?case using assms(3) by simp
next
  case (Cons a xs)
  then have "\<not> prefix old ((a # xs) @ b)" using assms(1) by auto
  with Cons show ?case by (simp add: sublist_Cons_right)
qed

lemma sublist_split_at:
  assumes "c \<notin> set p" "sublist p (x @ c # y)"
  shows "sublist p x \<or> sublist p y"
proof -
  from assms(2) consider "sublist p x" | "sublist p (c # y)"
    | xs1 xs2 where "p = xs1 @ xs2" "suffix xs1 x" "prefix xs2 (c # y)"
    by (auto simp: sublist_append)
  then show ?thesis
  proof cases
    case 1
    then show ?thesis by simp
  next
    case 2
    then have "prefix p (c # y) \<or> sublist p y"
      by (simp add: sublist_Cons_right)
    moreover have "p = []" if "prefix p (c # y)"
      using that assms(1) by (cases p) auto
    ultimately show ?thesis by auto
  next
    case 3
    from 3(3) assms(1) 3(1) have "xs2 = []"
      by (cases xs2) auto
    with 3 have "suffix p x" by simp
    then show ?thesis by (simp add: suffix_imp_sublist)
  qed
qed

lemma prefix_Replace_all_back:
  assumes "new = a # b # new'"
  shows "prefix q (Replace s old new n) \<Longrightarrow> \<not> sublist [a, b] q \<Longrightarrow> q = [] \<or> last q \<noteq> a
         \<Longrightarrow> prefix q s"
proof (induction s arbitrary: q)
  case Nil
  then show ?case by (simp add: Replace_Nil)
next
  case (Cons c cs)
  show ?case
  proof (cases "prefix old (c # cs)")
    case False
    then have step: "Replace (c # cs) old new n = c # Replace cs old new n"
      by (rule Replace_skip)
    show ?thesis
    proof (cases q)
      case Nil
      then show ?thesis by simp
    next
      case (Cons x q')
      with Cons.prems(1) step have x: "x = c" and p: "prefix q' (Replace cs old new n)"
        by auto
      from Cons.prems(2) Cons have "\<not> sublist [a, b] q'"
        by (simp add: sublist_Cons_right)
      moreover from Cons.prems(3) Cons have "q' = [] \<or> last q' \<noteq> a"
        by (auto split: if_splits)
      ultimately have "prefix q' cs"
        using Cons.IH p by blast
      with x Cons show ?thesis by simp
    qed
  next
    case True
    have "Replace (c # cs) old new n =
            (if old = new \<or> n = 0 \<or> old = [] \<or> c # cs = [] then c # cs
             else if prefix old (c # cs)
               then new @ Replace (drop (length old) (c # cs)) old new (n - 1)
               else hd (c # cs) # Replace (tl (c # cs)) old new n)"
      by (rule Replace.simps)
    with True consider "Replace (c # cs) old new n = c # cs"
      | r where "Replace (c # cs) old new n = new @ r"
      by (auto split: if_splits)
    then show ?thesis
    proof cases
      case 1
      with Cons.prems(1) show ?thesis by simp
    next
      case 2
      with Cons.prems(1) assms have pq: "prefix q (a # b # new' @ r)" by simp
      show ?thesis
      proof (cases q)
        case Nil
        then show ?thesis by simp
      next
        case q1: (Cons x q')
        with pq have x: "x = a" and pq': "prefix q' (b # new' @ r)" by auto
        show ?thesis
        proof (cases q')
          case Nil
          with q1 x Cons.prems(3) show ?thesis by simp
        next
          case (Cons y q'')
          with pq' have "y = b" by simp
          with q1 x Cons have "prefix [a, b] q" by simp
          then have "sublist [a, b] q" by (rule prefix_imp_sublist)
          with Cons.prems(2) show ?thesis by simp
        qed
      qed
    qed
  qed
qed

lemma occurrences_Cons_ge: "occurrences w s \<le> occurrences w (x # s)"
  by simp

lemma occurrences_append_ge: "occurrences w s \<le> occurrences w (p @ s)"
  by (induction p) (auto intro: le_trans)

lemma occurrences_behind_free:
  "w = c # w' \<Longrightarrow> c \<notin> set xs \<Longrightarrow> occurrences w (xs @ s) = occurrences w s"
  by (induction xs) auto

lemma Replace_match_cases:
  assumes "prefix old s"
  obtains "Replace s old new n = s"
  | "old \<noteq> []" "s \<noteq> []" "old \<noteq> new" "n \<noteq> 0"
    "Replace s old new n = new @ Replace (drop (length old) s) old new (n - 1)"
proof -
  have "Replace s old new n =
          (if old = new \<or> n = 0 \<or> old = [] \<or> s = [] then s
           else if prefix old s then new @ Replace (drop (length old) s) old new (n - 1)
           else hd s # Replace (tl s) old new n)"
    by (rule Replace.simps)
  with assms that show thesis
    by (auto split: if_splits)
qed

lemma occurrences_Replace_le:
  assumes w: "w = c # w'" and new: "new = a # b # new'" and c: "c \<notin> set new"
    and free: "\<not> sublist [a, b] w'" "w' = [] \<or> last w' \<noteq> a"
  shows "occurrences w (Replace s old new n) \<le> occurrences w s"
proof (induction "length s" arbitrary: s n rule: less_induct)
  case less
  show ?case
  proof (cases s)
    case Nil
    then show ?thesis by (simp add: Replace_Nil)
  next
    case (Cons x cs)
    show ?thesis
    proof (cases "prefix old s")
      case False
      with Cons have step: "Replace s old new n = x # Replace cs old new n"
        by (simp add: Replace_skip)
      have IH: "occurrences w (Replace cs old new n) \<le> occurrences w cs"
        using less Cons by simp
      have "prefix w (x # cs)" if "prefix w (x # Replace cs old new n)"
      proof -
        from that w have "x = c" and "prefix w' (Replace cs old new n)" by auto
        then have "prefix w' cs"
          using prefix_Replace_all_back [OF new _ free] by blast
        with \<open>x = c\<close> w show ?thesis by simp
      qed
      with IH step Cons show ?thesis by auto
    next
      case True
      then show ?thesis
      proof (cases rule: Replace_match_cases [where new = new and n = n])
        case 1
        then show ?thesis by simp
      next
        case 2
        let ?t = "drop (length old) s"
        have "length ?t < length s" using 2 by simp
        then have "occurrences w (Replace ?t old new (n - 1)) \<le> occurrences w ?t"
          by (rule less)
        also have "\<dots> \<le> occurrences w (take (length old) s @ ?t)"
          by (rule occurrences_append_ge)
        finally have "occurrences w (Replace ?t old new (n - 1)) \<le> occurrences w s"
          by simp
        moreover have "occurrences w (new @ Replace ?t old new (n - 1))
                         = occurrences w (Replace ?t old new (n - 1))"
          using w c by (rule occurrences_behind_free)
        ultimately show ?thesis using 2 by simp
      qed
    qed
  qed
qed

lemma Replace_all_removes:
  assumes old: "old = p # old'" and new: "new = a # b # new'" and p: "p \<notin> set new"
    and free: "\<not> sublist [a, b] old'" "old' = [] \<or> last old' \<noteq> a"
  shows "n < 0 \<Longrightarrow> \<not> sublist old (Replace s old new n)"
proof (induction "length s" arbitrary: s n rule: less_induct)
  case less
  have ne: "old \<noteq> new" using old new p by auto
  show ?case
  proof (cases s)
    case Nil
    then show ?thesis using old by (simp add: Replace_Nil)
  next
    case (Cons x cs)
    show ?thesis
    proof (cases "prefix old s")
      case False
      with Cons have step: "Replace s old new n = x # Replace cs old new n"
        by (simp add: Replace_skip)
      have IH: "\<not> sublist old (Replace cs old new n)"
        using less Cons by simp
      have "\<not> prefix old (x # Replace cs old new n)"
      proof
        assume "prefix old (x # Replace cs old new n)"
        with old have "x = p" and "prefix old' (Replace cs old new n)" by auto
        then have "prefix old' cs"
          using prefix_Replace_all_back [OF new _ free] by blast
        with \<open>x = p\<close> old Cons have "prefix old s" by simp
        with False show False by simp
      qed
      with IH step show ?thesis by (simp add: sublist_Cons_right)
    next
      case True
      let ?t = "drop (length old) s"
      from True old ne less.prems
      have eq: "Replace s old new n = new @ Replace ?t old new (n - 1)"
        by (intro Replace_match) auto
      have "length ?t < length s" using old Cons by simp
      moreover have "n - 1 < 0" using less.prems by simp
      ultimately have "\<not> sublist old (Replace ?t old new (n - 1))"
        by (rule less)
      with old p have "\<not> sublist old (new @ Replace ?t old new (n - 1))"
        by (rule sublist_behind_free)
      with eq show ?thesis by simp
    qed
  qed
qed

lemma Replace_first_decomp:
  "Replace s old new 1 = s \<or> (\<exists>a b. s = a @ old @ b \<and> Replace s old new 1 = a @ new @ b)"
proof (induction s)
  case Nil
  show ?case by (simp add: Replace_Nil)
next
  case (Cons x cs)
  show ?case
  proof (cases "prefix old (x # cs)")
    case False
    then have "Replace (x # cs) old new 1 = x # Replace cs old new 1"
      by (rule Replace_skip)
    with Cons show ?thesis
      by (metis append_Cons)
  next
    case True
    then show ?thesis
    proof (cases rule: Replace_match_cases [where new = new and n = 1])
      case 1
      then show ?thesis by simp
    next
      case 2
      from True obtain b where b: "x # cs = old @ b"
        by (auto simp: prefix_def)
      with 2 have "Replace (x # cs) old new 1 = [] @ new @ b"
        by (simp add: Replace_zero)
      with b show ?thesis
        by (metis append_Nil)
    qed
  qed
qed

lemma Replace_first_keeps_absent:
  assumes u: "\<not> sublist p u" and N: "new = c # m @ [e]"
    and free: "c \<notin> set p" "e \<notin> set p" "\<not> sublist p m"
  shows "\<not> sublist p (Replace u old new 1)"
proof
  assume s: "sublist p (Replace u old new 1)"
  have "Replace u old new 1 \<noteq> u"
    using s u by auto
  with Replace_first_decomp [of u old new]
  obtain a b where ab: "u = a @ old @ b" and r: "Replace u old new 1 = a @ new @ b"
    by blast
  from s r have "sublist p (a @ new @ b)"
    by simp
  then have "sublist p (a @ c # (m @ e # b))"
    unfolding N by simp
  with free(1) have "sublist p a \<or> sublist p (m @ e # b)"
    by (rule sublist_split_at)
  moreover have "sublist p m \<or> sublist p b" if "sublist p (m @ e # b)"
    using free(2) that by (rule sublist_split_at)
  ultimately have "sublist p a \<or> sublist p b"
    using free(3) by blast
  then have "sublist p (a @ old @ b)"
    by (auto simp: sublist_append)
  with u ab show False by simp
qed

lemma relationships_attr_shape:
  "relationships_attr = CHR ''x'' # tl relationships_attr"
  "\<not> sublist ''r:'' (tl relationships_attr)"
  "last (tl relationships_attr) \<noteq> CHR ''r''"
  "CHR ''<'' \<notin> set relationships_attr"
  "CHR ''>'' \<notin> set relationships_attr"
  by (simp_all add: relationships_attr_def sublist_Cons_right)

lemma workbook_oldXmlns_shape:
  "workbook_oldXmlns = CHR ''<'' # tl workbook_oldXmlns"
  "CHR ''<'' \<notin> set (tl workbook_oldXmlns)"
  "\<not> sublist ''r:'' (tl workbook_oldXmlns)"
  "last (tl workbook_oldXmlns) \<noteq> CHR ''r''"
  by (simp_all add: workbook_oldXmlns_def sublist_Cons_right)

lemma workbook_newXmlns_shape:
  "workbook_newXmlns = CHR ''<'' # tl workbook_newXmlns"
  "CHR ''<'' \<notin> set (tl workbook_newXmlns)"
  "workbook_newXmlns = CHR ''<'' # butlast (tl workbook_newXmlns) @ ''>''"
  "\<not> prefix workbook_oldXmlns workbook_newXmlns"
  "length workbook_oldXmlns \<le> length workbook_newXmlns"
  by (simp_all add: workbook_newXmlns_def workbook_oldXmlns_def)

lemma relationships_attr_not_in_newXmlns:
  "\<not> sublist relationships_attr (butlast (tl workbook_newXmlns))"
  by (simp add: relationships_attr_def workbook_newXmlns_def sublist_Cons_right)

lemma worksheet_Xmlns_shape:
  "worksheet_oldXmlns = CHR ''<'' # tl worksheet_oldXmlns"
  "CHR ''<'' \<notin> set (tl worksheet_oldXmlns)"
  "worksheet_newXmlns = CHR ''<'' # tl worksheet_newXmlns"
  "CHR ''<'' \<notin> set (tl worksheet_newXmlns)"
  "\<not> prefix worksheet_oldXmlns worksheet_newXmlns"
  "length worksheet_oldXmlns \<le> length worksheet_newXmlns"
  by (simp_all add: worksheet_newXmlns_def worksheet_oldXmlns_def)

lemma replaceWorksheetNameSpace_idem:
  assumes "occurrences worksheet_oldXmlns s \<le> 1"
  shows "replaceWorksheetNameSpace (replaceWorksheetNameSpace s) = replaceWorksheetNameSpace s"
  unfolding replaceWorksheetNameSpace_def
  using worksheet_Xmlns_shape assms by (rule Replace_first_twice)

lemma replaceRelationshipsNameSpace_idem:
  assumes "occurrences workbook_oldXmlns w \<le> 1"
  shows "replaceRelationshipsNameSpace (replaceRelationshipsNameSpace w)
           = replaceRelationshipsNameSpace w"
proof -
  let ?u = "Replace w relationships_attr ''r:id'' (- 1)"
  let ?v = "Replace ?u workbook_oldXmlns workbook_newXmlns 1"
  have r: "''r:id'' = CHR ''r'' # CHR '':'' # ''id''" by simp
  have "\<not> sublist relationships_attr ?u"
    by (rule Replace_all_removes [OF relationships_attr_shape(1) r _ relationships_attr_shape(2)])
       (simp_all add: relationships_attr_shape(3))
  then have "\<not> sublist relationships_attr ?v"
    by (rule Replace_first_keeps_absent [OF _ workbook_newXmlns_shape(3)
          relationships_attr_shape(4,5) relationships_attr_not_in_newXmlns])
  then have 1: "Replace ?v relationships_attr ''r:id'' (- 1) = ?v"
    by (rule Replace_absent)
  have "occurrences workbook_oldXmlns ?u \<le> occurrences workbook_oldXmlns w"
    by (rule occurrences_Replace_le [OF workbook_oldXmlns_shape(1) r _ workbook_oldXmlns_shape(3)])
       (simp_all add: workbook_oldXmlns_shape(4))
  with assms have "occurrences workbook_oldXmlns ?u \<le> 1" by simp
  with workbook_oldXmlns_shape(1,2) workbook_newXmlns_shape(1,2,4,5)
  have 2: "Replace ?v workbook_oldXmlns workbook_newXmlns 1 = ?v"
    by (rule Replace_first_twice)
  show ?thesis
    unfolding replaceRelationshipsNameSpace_def Let_def
    by (simp only: 1 2)
qed


text \<open>
  Without that condition the rewrite is not idempotent: of two root start tags the first
  application rewrites one and the second application the other.
\<close>

lemma replaceWorksheetNameSpace_two_roots:
  "replaceWorksheetNameSpace
       (replaceWorksheetNameSpace (worksheet_oldXmlns @ worksheet_oldXmlns))
     \<noteq> replaceWorksheetNameSpace (worksheet_oldXmlns @ worksheet_oldXmlns)"
  by (simp add: replaceWorksheetNameSpace_def worksheet_oldXmlns_def worksheet_newXmlns_def
        Replace_skip Replace_match Replace_Nil Replace_zero)

text \<open>
  Claim C7. On a serialized workbook document, in which the start tag of the root element
  occurs once at most, \<^verbatim>\<open>replaceRelationshipsNameSpace\<close> applied twice gives what
  it gives applied once; and so does \<^verbatim>\<open>replaceWorksheetNameSpace\<close> on a
  serialized worksheet document.
\<close>

theorem compatibility_rewrites_idempotent:
  "(occurrences workbook_oldXmlns w \<le> 1 \<longrightarrow>
      replaceRelationshipsNameSpace (replaceRelationshipsNameSpace w)
        = replaceRelationshipsNameSpace w)
   \<and> (occurrences worksheet_oldXmlns s \<le> 1 \<longrightarrow>
      replaceWorksheetNameSpace (replaceWorksheetNameSpace s) = replaceWorksheetNameSpace s)"
  using replaceRelationshipsNameSpace_idem replaceWorksheetNameSpace_idem by blast

theorem compatibility_rewrites_idempotent_witness:
  \<open>occurrences workbook_oldXmlns sample_workbook = 1
   \<and> replaceRelationshipsNameSpace sample_workbook
       = workbook_newXmlns @ ''<sheet r:id="rId1"></sheet></workbook>''
   \<and> replaceRelationshipsNameSpace (replaceRelationshipsNameSpace sample_workbook)
       = replaceRelationshipsNameSpace sample_workbook
   \<and> occurrences worksheet_oldXmlns sample_worksheet = 1
   \<and> replaceWorksheetNameSpace sample_worksheet = worksheet_newXmlns @ ''</worksheet>''
   \<and> replaceWorksheetNameSpace (replaceWorksheetNameSpace sample_worksheet)
       = replaceWorksheetNameSpace sample_worksheet\<close>
proof -
  have o1: "occurrences workbook_oldXmlns sample_workbook = 1"
    by (simp add: sample_workbook_def workbook_oldXmlns_def)
  have o2: "occurrences worksheet_oldXmlns sample_worksheet = 1"
    by (simp add: sample_worksheet_def worksheet_oldXmlns_def)
  have wb: \<open>replaceRelationshipsNameSpace sample_workbook
              = workbook_newXmlns @ ''<sheet r:id="rId1"></sheet></workbook>''\<close>
    by (simp add: replaceRelationshipsNameSpace_def sample_workbook_def workbook_oldXmlns_def
          workbook_newXmlns_def relationships_attr_def
          Replace_skip Replace_match Replace_Nil Replace_zero)
  have ws: "replaceWorksheetNameSpace sample_worksheet = worksheet_newXmlns @ ''</worksheet>''"
    by (simp add: replaceWorksheetNameSpace_def sample_worksheet_def worksheet_oldXmlns_def
          worksheet_newXmlns_def Replace_skip Replace_match Replace_Nil Replace_zero)
  from compatibility_rewrites_idempotent [of sample_workbook sample_worksheet] o1 o2
  have "replaceRelationshipsNameSpace (replaceRelationshipsNameSpace sample_workbook)
          = replaceRelationshipsNameSpace sample_workbook
        \<and> replaceWorksheetNameSpace (replaceWorksheetNameSpace sample_worksheet)
          = replaceWorksheetNameSpace sample_worksheet"
    by simp
  with o1 o2 wb ws show ?thesis by blast
qed


section \<open>Case A: both spans given\<close>

lemma sint_add_no_overflow:
  fixes a b :: go_int
  assumes "0 < sint b" "sint a + sint b < 2 ^ 63"
  shows "sint (a + b) = sint a + sint b"
proof -
  have "- (2 ^ 63) \<le> sint a" using sint_ge [of a] by simp
  with assms show ?thesis
    by (simp add: sint_word_ariths signed_take_bit_int_eq_self)
qed

lemma drawingStep_both_spans:
  assumes "0 <s RowCount d" "0 <s ColCount d"
  shows "drawingStep env colWidths (p, xDrawing, xDrawingRel) d
           = Some (Inr
               (p\<lparr> drawingCount := drawingCount p + 1,
                    parts := (parts p)
                      (''xl/media/'' @ imageName_of env (drawingCount p + 1) d \<mapsto> ImageData d) \<rparr>,
                xDrawing @
                  [\<lparr> FromCol = ColNum (TopLeftCell d), FromColOff = 0,
                      FromRow = RowNum (TopLeftCell d), FromRowOff = 0,
                      ToCol = ColNum (TopLeftCell d) + ColCount d, ToColOff = 0,
                      ToRow = RowNum (TopLeftCell d) + RowCount d, ToRowOff = 0,
                      EmbedId = ''rId'' @ itoa (length xDrawingRel + 1) \<rparr>],
                xDrawingRel @
                  [(''rId'' @ itoa (length xDrawingRel + 1),
                    imageName_of env (drawingCount p + 1) d)]))"
  using assms
  by (simp add: drawingStep_def resolveAnchor_def and_then_def of_panic_def Let_def
        AddDrawingRelationship_def AddDrawingTwoCellAnchor_def)

text \<open>
  Claim C5. A drawing with a positive column span and a positive row span is placed with
  its bottom-right cell at \<open>(c0 + colSpan, r0 + rowSpan)\<close> and both offsets 0, and that
  is the two-cell anchor added to the drawing part. The sums are those of Go's
  \<^verbatim>\<open>int\<close>; they are the sums of the integers unless they exceed the largest
  \<^verbatim>\<open>int\<close>.
\<close>

theorem two_cell_anchor_both_spans:
  assumes "0 <s RowCount d" "0 <s ColCount d"
  shows "resolveAnchor env colWidths d
           = Some (Inr (ColNum (TopLeftCell d) + ColCount d, 0,
                        RowNum (TopLeftCell d) + RowCount d, 0))
         \<and> (\<exists>p' rels'.
               drawingStep env colWidths (p, xDrawing, xDrawingRel) d
                 = Some (Inr (p',
                     xDrawing @
                       [\<lparr> FromCol = ColNum (TopLeftCell d), FromColOff = 0,
                           FromRow = RowNum (TopLeftCell d), FromRowOff = 0,
                           ToCol = ColNum (TopLeftCell d) + ColCount d, ToColOff = 0,
                           ToRow = RowNum (TopLeftCell d) + RowCount d, ToRowOff = 0,
                           EmbedId = ''rId'' @ itoa (length xDrawingRel + 1) \<rparr>],
                     rels')))
         \<and> (sint (ColNum (TopLeftCell d)) + sint (ColCount d) < 2 ^ 63 \<longrightarrow>
              sint (ColNum (TopLeftCell d) + ColCount d)
                = sint (ColNum (TopLeftCell d)) + sint (ColCount d))
         \<and> (sint (RowNum (TopLeftCell d)) + sint (RowCount d) < 2 ^ 63 \<longrightarrow>
              sint (RowNum (TopLeftCell d) + RowCount d)
                = sint (RowNum (TopLeftCell d)) + sint (RowCount d))"
proof (intro conjI impI)
  show "resolveAnchor env colWidths d
          = Some (Inr (ColNum (TopLeftCell d) + ColCount d, 0,
                       RowNum (TopLeftCell d) + RowCount d, 0))"
    using assms by (simp add: resolveAnchor_def)
next
  show "\<exists>p' rels'.
          drawingStep env colWidths (p, xDrawing, xDrawingRel) d
            = Some (Inr (p',
                xDrawing @
                  [\<lparr> FromCol = ColNum (TopLeftCell d), FromColOff = 0,
                      FromRow = RowNum (TopLeftCell d), FromRowOff = 0,
                      ToCol = ColNum (TopLeftCell d) + ColCount d, ToColOff = 0,
                      ToRow = RowNum (TopLeftCell d) + RowCount d, ToRowOff = 0,
                      EmbedId = ''rId'' @ itoa (length xDrawingRel + 1) \<rparr>],
                rels'))"
    using drawingStep_both_spans [OF assms] by blast
next
  assume "sint (ColNum (TopLeftCell d)) + sint (ColCount d) < 2 ^ 63"
  with assms(2) show "sint (ColNum (TopLeftCell d) + ColCount d)
                        = sint (ColNum (TopLeftCell d)) + sint (ColCount d)"
    by (intro sint_add_no_overflow) (simp_all add: word_sless_alt)
next
  assume "sint (RowNum (TopLeftCell d)) + sint (RowCount d) < 2 ^ 63"
  with assms(1) show "sint (RowNum (TopLeftCell d) + RowCount d)
                        = sint (RowNum (TopLeftCell d)) + sint (RowCount d)"
    by (intro sint_add_no_overflow) (simp_all add: word_sless_alt)
qed

theorem two_cell_anchor_both_spans_witness:
  "resolveAnchor sample_env [Fin 0, Fin 0] (sample_drawing 2 3 640 480) = Some (Inr (2, 0, 3, 0))
   \<and> (\<exists>p' rels'.
         drawingStep sample_env [Fin 0, Fin 0] (initial_pass sample_env NewFile, [], [])
             (sample_drawing 2 3 640 480)
           = Some (Inr (p',
               [\<lparr> FromCol = 0, FromColOff = 0, FromRow = 0, FromRowOff = 0,
                   ToCol = 2, ToColOff = 0, ToRow = 3, ToRowOff = 0, EmbedId = ''rId1'' \<rparr>],
               rels')))
   \<and> sint (2 :: go_int) = 2 \<and> sint (3 :: go_int) = 3"
proof -
  let ?d = "sample_drawing 2 3 640 480"
  have spans: "0 <s RowCount ?d" "0 <s ColCount ?d"
    by (simp_all add: sample_drawing_def word_sless_alt)
  have cells: "ColCount ?d = 2" "RowCount ?d = 3"
    "ColNum (TopLeftCell ?d) = 0" "RowNum (TopLeftCell ?d) = 0"
    by (simp_all add: sample_drawing_def)
  have id: "itoa (Suc 0) = ''1''"
    by (simp add: itoa.simps digit_def)
  from two_cell_anchor_both_spans [OF spans, of sample_env "[Fin 0, Fin 0]"
         "initial_pass sample_env NewFile" "[]" "[]"]
  show ?thesis
    by (simp add: cells id)
qed


section \<open>Case B: the target width grows with the row span\<close>

lemma rnd_nonneg: "mono r \<Longrightarrow> r 0 = 0 \<Longrightarrow> 0 \<le> x \<Longrightarrow> 0 \<le> r (x :: real)"
  by (metis monoD)

lemma rnd_pos_int:
  fixes r :: "real \<Rightarrow> real"
  assumes "mono r" "r 1 = 1" "0 <s (i :: go_int)"
  shows "1 \<le> r (signed i)"
proof -
  have "1 \<le> sint i"
    using assms(3) by (simp add: word_sless_alt)
  then have "1 \<le> real_of_int (sint i)"
    by (simp del: of_int_sint)
  then have "1 \<le> (signed i :: real)"
    by simp
  with assms(1) have "r 1 \<le> r (signed i)"
    by (rule monoD)
  with assms(2) show ?thesis by simp
qed

lemma signed_mono_real:
  fixes a b :: go_int
  assumes "a \<le>s b"
  shows "(signed a :: real) \<le> signed b"
proof -
  have "real_of_int (sint a) \<le> real_of_int (sint b)"
    using assms by (simp add: word_sle_eq del: of_int_sint)
  then show ?thesis by simp
qed

lemma targetWidthInPixel_of_rows_mono:
  assumes r: "mono (rnd env)" "rnd env 0 = 0" "rnd env 1 = 1"
    and units: "PixelPerUnitHeight env = Fin p" "UnitHeightPerCell env = Fin u" "0 \<le> p" "0 \<le> u"
    and size: "0 <s Width d" "0 <s Height d"
    and spans: "rowSpan1 \<le>s rowSpan2"
  shows "fle (targetWidthInPixel_of_rows env (d\<lparr>RowCount := rowSpan1\<rparr>))
             (targetWidthInPixel_of_rows env (d\<lparr>RowCount := rowSpan2\<rparr>))"
proof -
  let ?r = "rnd env"
  let ?w = "?r (signed (Width d))"
  let ?h = "?r (signed (Height d))"
  let ?k = "?r (p * u)"
  let ?H = "\<lambda>n. ?r (?k * ?r (signed n))"
  let ?q = "?r (?w / ?h)"
  have w: "1 \<le> ?w"
    using r(1,3) size(1) by (rule rnd_pos_int)
  have h: "1 \<le> ?h"
    using r(1,3) size(2) by (rule rnd_pos_int)
  have k: "0 \<le> ?k"
    using units(3,4) by (simp add: rnd_nonneg [OF r(1,2)])
  have q: "0 \<le> ?q"
    using w h by (simp add: rnd_nonneg [OF r(1,2)])
  have tw: "targetWidthInPixel_of_rows env (d\<lparr>RowCount := n\<rparr>) = Fin (?r (?q * ?H n))" for n
    using h units(1,2)
    by (simp add: targetWidthInPixel_of_rows_def targetHeightInPixel_of_rows_def f64_of_int_def)
  have "(signed rowSpan1 :: real) \<le> signed rowSpan2"
    using spans by (rule signed_mono_real)
  then have "?r (signed rowSpan1) \<le> ?r (signed rowSpan2)"
    using r(1) by (rule monoD [rotated])
  then have "?k * ?r (signed rowSpan1) \<le> ?k * ?r (signed rowSpan2)"
    using k by (rule mult_left_mono)
  then have "?H rowSpan1 \<le> ?H rowSpan2"
    using r(1) by (rule monoD [rotated])
  then have "?q * ?H rowSpan1 \<le> ?q * ?H rowSpan2"
    using q by (rule mult_left_mono)
  then have "?r (?q * ?H rowSpan1) \<le> ?r (?q * ?H rowSpan2)"
    using r(1) by (rule monoD [rotated])
  then show ?thesis
    by (simp add: tw fle_def)
qed

text \<open>
  Claim C8. With the intrinsic width and height fixed and positive, the target pixel width
  computed from the row span does not decrease when the row span grows. The rounding of
  \<^verbatim>\<open>float64\<close> arithmetic is monotone and exact on 0 and 1, as rounding to nearest
  is; the two units of height are finite and not negative.
\<close>

theorem targetWidthInPixel_grows_with_rowSpan:
  assumes "mono (rnd env)" "rnd env 0 = 0" "rnd env 1 = 1"
    and "PixelPerUnitHeight env = Fin p" "UnitHeightPerCell env = Fin u" "0 \<le> p" "0 \<le> u"
    and "0 <s Width d" "0 <s Height d"
    and "rowSpan1 \<le>s rowSpan2"
  shows "fle (targetWidthInPixel_of_rows env (d\<lparr>RowCount := rowSpan1\<rparr>))
             (targetWidthInPixel_of_rows env (d\<lparr>RowCount := rowSpan2\<rparr>))"
  using assms by (rule targetWidthInPixel_of_rows_mono)

theorem targetWidthInPixel_grows_with_rowSpan_witness:
  "targetWidthInPixel_of_rows sample_env (sample_drawing 0 1 2 1) = Fin 40
   \<and> targetWidthInPixel_of_rows sample_env (sample_drawing 0 2 2 1) = Fin 80
   \<and> fle (targetWidthInPixel_of_rows sample_env (sample_drawing 0 1 2 1))
          (targetWidthInPixel_of_rows sample_env (sample_drawing 0 2 2 1))"
proof -
  let ?d = "sample_drawing 0 1 2 1"
  have d1: "?d\<lparr>RowCount := 1\<rparr> = sample_drawing 0 1 2 1"
    and d2: "?d\<lparr>RowCount := 2\<rparr> = sample_drawing 0 2 2 1"
    by (simp_all add: sample_drawing_def)
  have "mono (rnd sample_env)" "rnd sample_env 0 = 0" "rnd sample_env 1 = 1"
    "PixelPerUnitHeight sample_env = Fin 1" "UnitHeightPerCell sample_env = Fin 20"
    "(0::real) \<le> 1" "(0::real) \<le> 20" "0 <s Width ?d" "0 <s Height ?d" "(1 :: go_int) \<le>s 2"
    by (simp_all add: sample_env_def sample_drawing_def word_sless_alt word_sle_eq mono_def)
  then have "fle (targetWidthInPixel_of_rows sample_env (?d\<lparr>RowCount := 1\<rparr>))
                 (targetWidthInPixel_of_rows sample_env (?d\<lparr>RowCount := 2\<rparr>))"
    by (rule targetWidthInPixel_grows_with_rowSpan)
  moreover have "targetWidthInPixel_of_rows sample_env (sample_drawing 0 1 2 1) = Fin 40"
    "targetWidthInPixel_of_rows sample_env (sample_drawing 0 2 2 1) = Fin 80"
    by (simp_all add: targetWidthInPixel_of_rows_def targetHeightInPixel_of_rows_def
          f64_of_int_def sample_env_def sample_drawing_def)
  ultimately show ?thesis
    unfolding d1 d2 by simp
qed

section \<open>Case B: the walk over the columns\<close>

lemma sint_succ_in_range:
  fixes i :: go_int
  assumes "0 \<le> sint i" "0 \<le> sint (i + 1)"
  shows "sint (i + 1) = sint i + 1"
proof -
  have lt: "sint i < 2 ^ 63" using sint_lt [of i] by simp
  show ?thesis
  proof (cases "sint i + 1 < 2 ^ 63")
    case True
    with assms(1) show ?thesis
      by (simp add: sint_word_ariths signed_take_bit_int_eq_self)
  next
    case False
    with lt have "sint i = 2 ^ 63 - 1" by simp
    moreover have "sint (i + 1) = signed_take_bit 63 (sint i + 1)"
      by (simp add: sint_word_ariths)
    ultimately have "sint (i + 1) < 0" by simp
    with assms(2) show ?thesis by simp
  qed
qed

lemma colWalk_returns: "\<exists>r. colWalk env colWidths targeWidth colIndex = Some r"
proof (induction "length colWidths - nat (sint colIndex)" arbitrary: targeWidth colIndex
         rule: less_induct)
  case less
  show ?case
  proof (cases "in_range colWidths colIndex")
    case False
    then show ?thesis by (subst colWalk.simps) simp
  next
    case inside: True
    let ?w = "fmul (rnd env) (colWidths ! nat (sint colIndex)) (NumberPerUnitWidth env)"
    show ?thesis
    proof (cases "fge targeWidth ?w")
      case False
      with inside show ?thesis by (subst colWalk.simps) simp
    next
      case True
      have "\<exists>r. colWalk env colWidths (fsub (rnd env) targeWidth ?w) (colIndex + 1) = Some r"
      proof (cases "in_range colWidths (colIndex + 1)")
        case False
        then show ?thesis by (subst colWalk.simps) simp
      next
        case True
        with inside have "sint (colIndex + 1) = sint colIndex + 1"
          by (intro sint_succ_in_range) (auto simp: in_range_def)
        with inside True
        have "length colWidths - nat (sint (colIndex + 1)) < length colWidths - nat (sint colIndex)"
          by (auto simp: in_range_def)
        then show ?thesis by (rule less)
      qed
      with inside True show ?thesis by (subst colWalk.simps) simp
    qed
  qed
qed

lemma colWalk_empty: "colWalk env [] targeWidth colIndex = Some (Inl IndexOutOfRange)"
  by (subst colWalk.simps) (simp add: in_range_def)

lemma colWalk_zero_widths:
  assumes r: "mono (rnd env)" "rnd env 0 = 0" and unit: "NumberPerUnitWidth env = Fin k"
    and zero: "list_all (\<lambda>w. w = Fin 0) colWidths"
  shows "0 \<le> x \<Longrightarrow> colWalk env colWidths (Fin x) colIndex = Some (Inl IndexOutOfRange)"
proof (induction "length colWidths - nat (sint colIndex)" arbitrary: x colIndex
         rule: less_induct)
  case less
  show ?case
  proof (cases "in_range colWidths colIndex")
    case False
    then show ?thesis by (subst colWalk.simps) simp
  next
    case inside: True
    then have "colWidths ! nat (sint colIndex) = Fin 0"
      using zero by (simp add: in_range_def list_all_length)
    then have w: "fmul (rnd env) (colWidths ! nat (sint colIndex)) (NumberPerUnitWidth env) = Fin 0"
      using unit r(2) by simp
    have x': "0 \<le> rnd env (x - 0)"
      using less.prems by (simp add: rnd_nonneg [OF r])
    have "colWalk env colWidths (Fin (rnd env (x - 0))) (colIndex + 1) = Some (Inl IndexOutOfRange)"
    proof (cases "in_range colWidths (colIndex + 1)")
      case False
      then show ?thesis by (subst colWalk.simps) simp
    next
      case True
      with inside have "sint (colIndex + 1) = sint colIndex + 1"
        by (intro sint_succ_in_range) (auto simp: in_range_def)
      with inside True
      have "length colWidths - nat (sint (colIndex + 1)) < length colWidths - nat (sint colIndex)"
        by (auto simp: in_range_def)
      then show ?thesis using x' by (rule less)
    qed
    with inside w less.prems show ?thesis
      by (subst colWalk.simps) simp
  qed
qed

lemma sheetStep_panic_at_first_drawing:
  assumes "startSheet env p sheet = Some (Inr p')"
    and "make_colWidths sheet = Inr colWidths"
    and "Drawings sheet = d # ds"
    and "resolveAnchor env colWidths d = Some (Inl pn)"
  shows "sheetStep env p sheet = Some (Inl (Panic pn))"
  using assms
  by (simp add: sheetStep_def and_then_def of_panic_def drawingStep_def Let_def)

lemma MarshallParts_abort_at_first_sheet:
  assumes "Sheets f = sheet # sheets"
    and "sheetStep env (initial_pass env f) sheet = Some (Inl a)"
  shows "MarshallParts env f = Some (Inl a)"
  using assms by (simp add: MarshallParts_def and_then_def)

lemma sample_startSheet:
  "\<exists>p'. startSheet sample_env (initial_pass sample_env (sample_file d)) (sample_sheet d)
          = Some (Inr p')"
  by (simp add: startSheet_def initial_pass_def makeWorkbook_def store_def marshal_def
        and_then_def sample_file_def NewFile_def sample_env_def sample_xml_Marshal_def Let_def)

text \<open>
  Claim C4. The walk over the columns ends on every input: each round moves to the next
  column, and a column beyond the last one is not compared but stops the walk with the
  panic of an index out of range. That panic is reached: on a sheet without columns at
  once, and whenever the columns from the start on all have width 0 and the target width is
  not negative.
\<close>

theorem colWalk_ends_beyond_colWidths:
  "(\<exists>r. colWalk env colWidths targeWidth colIndex = Some r)
   \<and> colWalk env [] targeWidth colIndex = Some (Inl IndexOutOfRange)
   \<and> (mono (rnd env) \<and> rnd env 0 = 0 \<and> NumberPerUnitWidth env = Fin k
        \<and> list_all (\<lambda>w. w = Fin 0) colWidths \<and> 0 \<le> x \<longrightarrow>
      colWalk env colWidths (Fin x) colIndex = Some (Inl IndexOutOfRange))"
  using colWalk_returns colWalk_empty colWalk_zero_widths by blast

theorem colWalk_ends_beyond_colWidths_witness:
  "make_colWidths (sample_sheet (sample_drawing 0 1 1 1)) = Inr [Fin 0, Fin 0]
   \<and> colWalk sample_env [Fin 0, Fin 0] (Fin 160) 0 = Some (Inl IndexOutOfRange)
   \<and> resolveAnchor sample_env [Fin 0, Fin 0] (sample_drawing 0 1 1 1)
       = Some (Inl IndexOutOfRange)
   \<and> MarshallParts sample_env (sample_file (sample_drawing 0 1 1 1))
       = Some (Inl (Panic IndexOutOfRange))"
proof -
  have cw: "make_colWidths (sample_sheet (sample_drawing 0 1 1 1)) = Inr [Fin 0, Fin 0]"
    by (simp add: make_colWidths_def sample_sheet_def numeral_2_eq_2)
  have "mono (rnd sample_env) \<and> rnd sample_env 0 = 0 \<and> NumberPerUnitWidth sample_env = Fin 64
        \<and> list_all (\<lambda>w. w = Fin 0) [Fin 0, Fin 0] \<and> (0 :: real) \<le> 160"
    by (simp add: sample_env_def mono_def)
  with colWalk_ends_beyond_colWidths [of sample_env "[Fin 0, Fin 0]" "Fin 160" 0 64 160]
  have walk: "colWalk sample_env [Fin 0, Fin 0] (Fin 160) 0 = Some (Inl IndexOutOfRange)"
    by blast
  have target: "fmul (rnd sample_env)
                  (fdiv (rnd sample_env)
                     (targetWidthInPixel_of_rows sample_env (sample_drawing 0 1 1 1))
                     (PixelPerUnitWidth sample_env))
                  (NumberPerUnitWidth sample_env) = Fin 160"
    by (simp add: targetWidthInPixel_of_rows_def targetHeightInPixel_of_rows_def
          f64_of_int_def sample_env_def sample_drawing_def)
  have ra: "resolveAnchor sample_env [Fin 0, Fin 0] (sample_drawing 0 1 1 1)
              = Some (Inl IndexOutOfRange)"
    unfolding resolveAnchor_def Let_def target
    by (simp add: sample_drawing_def word_sless_alt walk)
  let ?d = "sample_drawing 0 1 1 1"
  obtain p' where "startSheet sample_env (initial_pass sample_env (sample_file ?d))
                     (sample_sheet ?d) = Some (Inr p')"
    using sample_startSheet by blast
  moreover have "Drawings (sample_sheet ?d) = [?d]"
    by (simp add: sample_sheet_def)
  ultimately have "sheetStep sample_env (initial_pass sample_env (sample_file ?d))
                     (sample_sheet ?d) = Some (Inl (Panic IndexOutOfRange))"
    using cw ra by (intro sheetStep_panic_at_first_drawing)
  moreover have "Sheets (sample_file ?d) = [sample_sheet ?d]"
    by (simp add: sample_file_def)
  ultimately have "MarshallParts sample_env (sample_file ?d) = Some (Inl (Panic IndexOutOfRange))"
    by (intro MarshallParts_abort_at_first_sheet)
  with cw walk ra show ?thesis by simp
qed

section \<open>Errors of a pass\<close>


lemma and_then_Inr:
  assumes "and_then m k = Some (Inr r)"
  obtains v where "m = Some (Inr v)" "k v = Some (Inr r)"
  using assms by (auto simp: and_then_def split: option.splits sum.splits)












section \<open>What a drawing leaves in the pass\<close>



section \<open>A drawing without spans\<close>




section \<open>The pass on the sample file\<close>





section \<open>Drawings that the spec wants rejected\<close>










text \<open>
  With only the row span given, a height of 0 makes the ratio of width to height infinite:
  the target width is infinite, the walk over the columns never stops inside the slice, and
  the pass panics.
\<close>

lemma sample_zero_height_row_span:
  "targetWidthInPixel_of_rows sample_env (sample_drawing 0 1 1 0) = PInf
   \<and> resolveAnchor sample_env [Fin 0, Fin 0] (sample_drawing 0 1 1 0)
       = Some (Inl IndexOutOfRange)"
  by (simp add: resolveAnchor_def sample_drawing_def word_sless_alt
        targetWidthInPixel_of_rows_def targetHeightInPixel_of_rows_def f64_of_int_def
        sample_env_def colWalk.simps in_range_def inf_of_sign_def)

section \<open>The order of the archive members\<close>










end
